theory Spec2Isabelle
  imports Complex_Main "HOL-Library.Multiset" "HOL-Library.Log_Nat"
begin

section \<open>The analytics server: transaction statistics by user and by riven\<close>

text \<open>
  The model covers the two report functions of \<^verbatim>\<open>server.js\<close>,
  \<^verbatim>\<open>getUserStatistics\<close> and \<^verbatim>\<open>getRivenStatistics\<close>. Both start from the array
  that \<^verbatim>\<open>getAllTransactions()\<close> returns, which is the argument \<open>txs\<close> of the model
  (the database handle is a global of the program).
\<close>

subsection \<open>JavaScript numbers\<close>

text \<open>
  \<^verbatim>\<open>price\<close> and \<^verbatim>\<open>quantity\<close> are \<^verbatim>\<open>Number(row.price)\<close> and \<^verbatim>\<open>Number(row.quantity)\<close>:
  IEEE 754 doubles. A number is a finite value, \<^verbatim>\<open>NaN\<close> (what \<^verbatim>\<open>Number\<close> gives for a
  text that is no number) or one of the two infinities. A finite double is written by
  its exact rational value. The two zeros \<^verbatim>\<open>+0\<close> and \<^verbatim>\<open>-0\<close> are one value \<open>Finite 0\<close>:
  the program tells them apart nowhere (\<^verbatim>\<open>=== 0\<close> holds for both, their difference to
  any number has the same sign, the only division is guarded against a zero divisor,
  and \<^verbatim>\<open>res.json\<close> prints both as \<^verbatim>\<open>0\<close>).
\<close>

datatype number = Finite rat | NaN | PosInfinity | NegInfinity

text \<open>
  Rounding to the nearest double, ties to the even significand. For \<open>0 < x\<close>,
  \<open>floor_log2 x\<close> is the exponent \<open>e\<close> with \<open>2^e \<le> x < 2^(e+1)\<close>; a double has 53
  significant bits and exponents from \<open>-1022\<close> up, so the doubles around \<open>x\<close> are the
  multiples of \<open>ulp x\<close>; a result of magnitude \<open>2^1024\<close> or more is an infinity.
\<close>

definition floor_log2 :: "rat \<Rightarrow> int" where
  "floor_log2 x = (if 1 \<le> x then bitlen \<lfloor>x\<rfloor> - 1 else - bitlen (\<lceil>1 / x\<rceil> - 1))"

definition round_even :: "rat \<Rightarrow> int" where
  "round_even y =
     (let n = \<lfloor>y\<rfloor>; r = y - of_int n
      in if r < 1 / 2 then n else if 1 / 2 < r then n + 1 else if even n then n else n + 1)"

definition ulp :: "rat \<Rightarrow> rat" where
  "ulp x = 2 powi (max (floor_log2 \<bar>x\<bar>) (- 1022) - 52)"

definition fl :: "rat \<Rightarrow> number" where
  "fl x =
     (if x = 0 then Finite 0
      else let y = of_int (round_even (x / ulp x)) * ulp x
           in if 2 ^ 1024 \<le> \<bar>y\<bar> then (if 0 < x then PosInfinity else NegInfinity)
              else Finite y)"

text \<open>
  The operators \<^verbatim>\<open>+\<close>, \<^verbatim>\<open>-\<close> and \<^verbatim>\<open>/\<close> on numbers: the exact result rounded, with
  the IEEE rules for \<^verbatim>\<open>NaN\<close> and the infinities. Equations are tried in order.
\<close>

fun js_add :: "number \<Rightarrow> number \<Rightarrow> number" where
  "js_add (Finite a) (Finite b) = fl (a + b)"
| "js_add NaN _ = NaN"
| "js_add _ NaN = NaN"
| "js_add PosInfinity NegInfinity = NaN"
| "js_add NegInfinity PosInfinity = NaN"
| "js_add PosInfinity _ = PosInfinity"
| "js_add _ PosInfinity = PosInfinity"
| "js_add NegInfinity _ = NegInfinity"
| "js_add _ NegInfinity = NegInfinity"

fun js_sub :: "number \<Rightarrow> number \<Rightarrow> number" where
  "js_sub (Finite a) (Finite b) = fl (a - b)"
| "js_sub NaN _ = NaN"
| "js_sub _ NaN = NaN"
| "js_sub PosInfinity PosInfinity = NaN"
| "js_sub NegInfinity NegInfinity = NaN"
| "js_sub PosInfinity _ = PosInfinity"
| "js_sub _ PosInfinity = NegInfinity"
| "js_sub NegInfinity _ = NegInfinity"
| "js_sub _ NegInfinity = PosInfinity"

text \<open>
  A zero divisor is taken as \<^verbatim>\<open>+0\<close>; the program never divides by zero (the division
  stands behind \<^verbatim>\<open>revenue === 0 ? 0 : ...\<close>).
\<close>

fun js_div :: "number \<Rightarrow> number \<Rightarrow> number" where
  "js_div (Finite a) (Finite b) =
     (if b = 0 then (if a = 0 then NaN else if 0 < a then PosInfinity else NegInfinity)
      else fl (a / b))"
| "js_div NaN _ = NaN"
| "js_div _ NaN = NaN"
| "js_div (Finite a) _ = Finite 0"
| "js_div PosInfinity (Finite b) = (if 0 \<le> b then PosInfinity else NegInfinity)"
| "js_div NegInfinity (Finite b) = (if 0 \<le> b then NegInfinity else PosInfinity)"
| "js_div _ _ = NaN"

text \<open>\<^verbatim>\<open>a === b\<close>, \<^verbatim>\<open>a < b\<close> and \<^verbatim>\<open>a >= b\<close> on numbers: every comparison with \<^verbatim>\<open>NaN\<close> is false.\<close>

definition js_strict_eq :: "number \<Rightarrow> number \<Rightarrow> bool" where
  "js_strict_eq a b = (a \<noteq> NaN \<and> b \<noteq> NaN \<and> a = b)"

fun js_less :: "number \<Rightarrow> number \<Rightarrow> bool" where
  "js_less (Finite a) (Finite b) = (a < b)"
| "js_less NaN _ = False"
| "js_less _ NaN = False"
| "js_less _ NegInfinity = False"
| "js_less PosInfinity _ = False"
| "js_less _ _ = True"

definition js_ge :: "number \<Rightarrow> number \<Rightarrow> bool" where
  "js_ge a b = (a \<noteq> NaN \<and> b \<noteq> NaN \<and> \<not> js_less a b)"

subsection \<open>Transactions\<close>

text \<open>
  One row of the \<^verbatim>\<open>transactions\<close> table after the mapping of \<^verbatim>\<open>getAllTransactions\<close>.
  A TEXT column holds a string or NULL (\<open>None\<close>); \<^verbatim>\<open>price\<close> and \<^verbatim>\<open>quantity\<close> are
  numbers. \<^verbatim>\<open>created_at\<close> is a Date, kept as milliseconds (\<open>None\<close> for an invalid
  date); no report reads it.
\<close>

record tx =
  tx_id :: int
  ingame_name :: "string option"
  item_type :: "string option"
  item_name :: "string option"
  transaction_type :: "string option"
  price :: number
  quantity :: number
  created_at :: "int option"

subsection \<open>The Map of groups\<close>

text \<open>
  A JavaScript \<^verbatim>\<open>Map\<close> iterates in insertion order, so it is an association list
  with at most one entry per key: \<^verbatim>\<open>set\<close> on a present key replaces the value in
  place, \<^verbatim>\<open>set\<close> on a new key appends an entry, \<^verbatim>\<open>get\<close> on a missing key is
  \<^verbatim>\<open>undefined\<close> (\<open>None\<close>).
\<close>

type_synonym ('k, 'v) js_map = "('k \<times> 'v) list"

fun map_has :: "('k, 'v) js_map \<Rightarrow> 'k \<Rightarrow> bool" where
  "map_has [] k = False"
| "map_has ((k', v') # m) k = (if k' = k then True else map_has m k)"

fun map_get :: "('k, 'v) js_map \<Rightarrow> 'k \<Rightarrow> 'v option" where
  "map_get [] k = None"
| "map_get ((k', v') # m) k = (if k' = k then Some v' else map_get m k)"

fun map_set :: "('k, 'v) js_map \<Rightarrow> 'k \<Rightarrow> 'v \<Rightarrow> ('k, 'v) js_map" where
  "map_set [] k v = [(k, v)]"
| "map_set ((k', v') # m) k v = (if k' = k then (k', v) # m else (k', v') # map_set m k v)"

subsection \<open>The grouping loop\<close>

text \<open>
  \<^verbatim>\<open>for (const tx of txs) { const key = ...; if (!groups.has(key)) groups.set(key, []);
  groups.get(key).push(tx); }\<close>
  The two reports differ in the key expression only, which is the parameter \<open>key_of\<close>.
  \<^verbatim>\<open>push\<close> mutates the array stored in the map; the model stores the extended
  array under the same key. \<^verbatim>\<open>groups.get(key).push\<close> on \<^verbatim>\<open>undefined\<close> would throw a
  TypeError: that is the result \<open>None\<close>.
\<close>

fun group_loop :: "(tx \<Rightarrow> 'k) \<Rightarrow> tx list \<Rightarrow> ('k, tx list) js_map \<Rightarrow> ('k, tx list) js_map option" where
  "group_loop key_of [] groups = Some groups"
| "group_loop key_of (tx # txs) groups =
     (let key = key_of tx;
          groups1 = (if \<not> map_has groups key then map_set groups key [] else groups)
      in case map_get groups1 key of
           None \<Rightarrow> None
         | Some list \<Rightarrow> group_loop key_of txs (map_set groups1 key (list @ [tx])))"

text \<open>\<^verbatim>\<open>tx.ingame_name || 'Unknown'\<close>: NULL and the empty string are falsy.\<close>

definition user_key :: "tx \<Rightarrow> string" where
  "user_key tx =
     (case ingame_name tx of
        None \<Rightarrow> ''Unknown''
      | Some name \<Rightarrow> (if name = [] then ''Unknown'' else name))"

text \<open>\<^verbatim>\<open>tx.item_name\<close>, as it is: NULL is a key of the Map like any other value.\<close>

definition riven_key :: "tx \<Rightarrow> string option" where
  "riven_key tx = item_name tx"

subsection \<open>The statistics of one group\<close>

text \<open>
  The inner loop over the transactions of a group, with the four accumulators
  \<^verbatim>\<open>revenue\<close>, \<^verbatim>\<open>expense\<close>, \<^verbatim>\<open>purchases\<close>, \<^verbatim>\<open>sales\<close>, in this order; \<^verbatim>\<open>+=\<close> is the
  addition of numbers.
\<close>

fun accumulate :: "tx list \<Rightarrow> number \<times> number \<times> number \<times> number \<Rightarrow> number \<times> number \<times> number \<times> number" where
  "accumulate [] acc = acc"
| "accumulate (tx # list) (revenue, expense, purchases, sales) =
     (if transaction_type tx = Some ''sale''
      then accumulate list (js_add revenue (price tx), expense, purchases, js_add sales (quantity tx))
      else if transaction_type tx = Some ''purchase''
      then accumulate list (revenue, js_add expense (price tx), js_add purchases (quantity tx), sales)
      else accumulate list (revenue, expense, purchases, sales))"

text \<open>
  The objects pushed to \<^verbatim>\<open>result\<close>: the fields common to both reports, extended by
  \<^verbatim>\<open>user\<close> in one and by \<^verbatim>\<open>riven\<close> in the other. \<^verbatim>\<open>number_of_trades\<close> is the length
  of an array.
\<close>

record stats =
  profit :: number
  revenue :: number
  expense :: number
  number_of_trades :: nat
  purchases :: number
  sales :: number
  profit_margin :: number

record user_stats = stats +
  user :: string

record riven_stats = stats +
  riven :: "string option"

text \<open>
  The body of the loop over \<^verbatim>\<open>groups.entries()\<close>, once per report as in the source.
\<close>

definition user_entry :: "string \<times> tx list \<Rightarrow> user_stats" where
  "user_entry e =
     (case e of (user', list) \<Rightarrow>
        (case accumulate list (Finite 0, Finite 0, Finite 0, Finite 0) of
           (revenue', expense', purchases', sales') \<Rightarrow>
             (let profit' = js_sub revenue' expense';
                  profit_margin' =
                    (if js_strict_eq revenue' (Finite 0) then Finite 0
                     else js_div profit' revenue')
              in \<lparr>profit = profit', revenue = revenue', expense = expense',
                  number_of_trades = length list, purchases = purchases', sales = sales',
                  profit_margin = profit_margin', user = user'\<rparr>)))"

definition riven_entry :: "string option \<times> tx list \<Rightarrow> riven_stats" where
  "riven_entry e =
     (case e of (riven', list) \<Rightarrow>
        (case accumulate list (Finite 0, Finite 0, Finite 0, Finite 0) of
           (revenue', expense', purchases', sales') \<Rightarrow>
             (let profit' = js_sub revenue' expense';
                  profit_margin' =
                    (if js_strict_eq revenue' (Finite 0) then Finite 0
                     else js_div profit' revenue')
              in \<lparr>profit = profit', revenue = revenue', expense = expense',
                  number_of_trades = length list, purchases = purchases', sales = sales',
                  profit_margin = profit_margin', riven = riven'\<rparr>)))"

subsection \<open>Sorting\<close>

text \<open>
  \<^verbatim>\<open>Array.prototype.sort\<close> with a comparator is a stable sort (the Dockerfile runs
  Node 18): \<open>a\<close> stays before \<open>b\<close> unless the comparator's value is greater than 0, and
  a comparator value \<^verbatim>\<open>NaN\<close> counts as 0. The model is the stable insertion sort; for
  a consistent comparator every stable sort returns the same array.
\<close>

fun nan_to_zero :: "number \<Rightarrow> number" where
  "nan_to_zero NaN = Finite 0"
| "nan_to_zero v = v"

fun is_positive :: "number \<Rightarrow> bool" where
  "is_positive (Finite q) = (0 < q)"
| "is_positive PosInfinity = True"
| "is_positive _ = False"

fun insert_by :: "('a \<Rightarrow> 'a \<Rightarrow> number) \<Rightarrow> 'a \<Rightarrow> 'a list \<Rightarrow> 'a list" where
  "insert_by cmp x [] = [x]"
| "insert_by cmp x (y # ys) =
     (if is_positive (nan_to_zero (cmp x y)) then y # insert_by cmp x ys else x # y # ys)"

definition array_sort :: "('a \<Rightarrow> 'a \<Rightarrow> number) \<Rightarrow> 'a list \<Rightarrow> 'a list" where
  "array_sort cmp xs = foldr (insert_by cmp) xs []"

text \<open>\<^verbatim>\<open>(a, b) => b.profit - a.profit\<close>\<close>

definition by_profit_desc :: "'a stats_scheme \<Rightarrow> 'a stats_scheme \<Rightarrow> number" where
  "by_profit_desc a b = js_sub (profit b) (profit a)"

subsection \<open>The two reports\<close>

definition getUserStatistics :: "tx list \<Rightarrow> user_stats list option" where
  "getUserStatistics txs =
     (case group_loop user_key txs [] of
        None \<Rightarrow> None
      | Some groups \<Rightarrow> Some (array_sort by_profit_desc (map user_entry groups)))"

definition getRivenStatistics :: "tx list \<Rightarrow> riven_stats list option" where
  "getRivenStatistics all_txs =
     (let txs = filter (\<lambda>tx. item_type tx = Some ''riven'') all_txs
      in case group_loop riven_key txs [] of
           None \<Rightarrow> None
         | Some groups \<Rightarrow> Some (array_sort by_profit_desc (map riven_entry groups)))"

subsection \<open>The quantities the properties speak about\<close>

text \<open>
  The sum of a numeric field over the records of one direction, added up as the program
  adds numbers: from 0, in the order of the records, each addition rounded. And the
  records of a group: for the user report the records whose key is the group's, for the
  riven report the records of type \<^verbatim>\<open>'riven'\<close> whose item name is the group's.
\<close>

definition js_sum :: "number list \<Rightarrow> number" where
  "js_sum xs = foldl js_add (Finite 0) xs"

definition sum_of :: "(tx \<Rightarrow> number) \<Rightarrow> string \<Rightarrow> tx list \<Rightarrow> number" where
  "sum_of field direction list =
     js_sum (map field (filter (\<lambda>tx. transaction_type tx = Some direction) list))"

definition user_group :: "tx list \<Rightarrow> string \<Rightarrow> tx list" where
  "user_group txs k = filter (\<lambda>tx. user_key tx = k) txs"

definition riven_group :: "tx list \<Rightarrow> string option \<Rightarrow> tx list" where
  "riven_group txs k = filter (\<lambda>tx. item_type tx = Some ''riven'' \<and> item_name tx = k) txs"

text \<open>
  The sum in exact arithmetic, for prices that are integers: \<open>exact_sum\<close> adds the values
  without rounding, and \<open>safe_integers\<close> says that every number of a list is an integer
  and that their magnitudes add up to at most \<open>2^53\<close>, the range in which doubles hold
  every integer.
\<close>

fun rat_of :: "number \<Rightarrow> rat" where
  "rat_of (Finite q) = q"
| "rat_of _ = 0"

fun is_integer :: "number \<Rightarrow> bool" where
  "is_integer (Finite q) = (of_int \<lfloor>q\<rfloor> = q)"
| "is_integer _ = False"

definition safe_integers :: "number list \<Rightarrow> bool" where
  "safe_integers xs = (list_all is_integer xs \<and> sum_list (map (\<lambda>x. \<bar>rat_of x\<bar>) xs) \<le> 2 ^ 53)"

definition exact_sum :: "(tx \<Rightarrow> number) \<Rightarrow> string \<Rightarrow> tx list \<Rightarrow> rat" where
  "exact_sum field direction list =
     sum_list (map (\<lambda>tx. rat_of (field tx))
       (filter (\<lambda>tx. transaction_type tx = Some direction) list))"

text \<open>A sample of the table, for the concrete instances of the properties.\<close>

definition row :: "int \<Rightarrow> string option \<Rightarrow> string option \<Rightarrow> string option \<Rightarrow> string option \<Rightarrow> number \<Rightarrow> number \<Rightarrow> tx" where
  "row i name ty item dir p q =
     \<lparr>tx_id = i, ingame_name = name, item_type = ty, item_name = item,
      transaction_type = dir, price = p, quantity = q, created_at = None\<rparr>"

definition sample_txs :: "tx list" where
  "sample_txs =
     [row 1 (Some ''A'') (Some ''item'') (Some ''Lex'') (Some ''sale'') (Finite 100) (Finite 1),
      row 2 (Some ''A'') (Some ''riven'') (Some ''Rubico'') (Some ''purchase'') (Finite 40) (Finite 1),
      row 3 None (Some ''riven'') (Some ''Rubico'') (Some ''sale'') (Finite 50) (Finite 2),
      row 4 (Some []) (Some ''riven'') (Some ''Lex'') (Some ''purchase'') (Finite 30) (Finite 1),
      row 5 (Some ''B'') (Some ''riven'') None (Some ''gift'') (Finite 10) (Finite 1),
      row 6 (Some ''B'') (Some ''item'') (Some ''Rubico'') (Some ''sale'') (Finite 70) (Finite 1)]"

text \<open>The two reports on the sample, group by group.\<close>

definition sample_user_A :: user_stats where
  "sample_user_A =
     \<lparr>profit = Finite 60, revenue = Finite 100, expense = Finite 40, number_of_trades = 2,
      purchases = Finite 1, sales = Finite 1, profit_margin = fl (60 / 100), user = ''A''\<rparr>"

definition sample_user_B :: user_stats where
  "sample_user_B =
     \<lparr>profit = Finite 70, revenue = Finite 70, expense = Finite 0, number_of_trades = 2,
      purchases = Finite 0, sales = Finite 1, profit_margin = Finite 1, user = ''B''\<rparr>"

definition sample_user_Unknown :: user_stats where
  "sample_user_Unknown =
     \<lparr>profit = Finite 20, revenue = Finite 50, expense = Finite 30, number_of_trades = 2,
      purchases = Finite 1, sales = Finite 2, profit_margin = fl (20 / 50),
      user = ''Unknown''\<rparr>"

definition sample_riven_Rubico :: riven_stats where
  "sample_riven_Rubico =
     \<lparr>profit = Finite 10, revenue = Finite 50, expense = Finite 40, number_of_trades = 2,
      purchases = Finite 1, sales = Finite 2, profit_margin = fl (10 / 50),
      riven = Some ''Rubico''\<rparr>"

definition sample_riven_NULL :: riven_stats where
  "sample_riven_NULL =
     \<lparr>profit = Finite 0, revenue = Finite 0, expense = Finite 0, number_of_trades = 1,
      purchases = Finite 0, sales = Finite 0, profit_margin = Finite 0, riven = None\<rparr>"

definition sample_riven_Lex :: riven_stats where
  "sample_riven_Lex =
     \<lparr>profit = Finite (- 30), revenue = Finite 0, expense = Finite 30, number_of_trades = 1,
      purchases = Finite 1, sales = Finite 0, profit_margin = Finite 0, riven = Some ''Lex''\<rparr>"

text \<open>
  Tables with a price that is no number, and with prices whose sum no double holds.
\<close>

definition nan_txs :: "tx list" where
  "nan_txs =
     [row 1 (Some ''P'') (Some ''item'') (Some ''Lex'') (Some ''sale'') (Finite 5) (Finite 1),
      row 2 (Some ''Q'') (Some ''item'') (Some ''Lex'') (Some ''sale'') NaN (Finite 1),
      row 3 (Some ''R'') (Some ''item'') (Some ''Lex'') (Some ''sale'') (Finite 9) (Finite 1)]"

definition big_txs :: "tx list" where
  "big_txs =
     [row 1 (Some ''X'') (Some ''item'') (Some ''Lex'') (Some ''sale'') (Finite 9007199254740992) (Finite 1),
      row 2 (Some ''X'') (Some ''item'') (Some ''Lex'') (Some ''sale'') (Finite 1) (Finite 1),
      row 3 (Some ''Y'') (Some ''item'') (Some ''Lex'') (Some ''sale'') NaN (Finite 1)]"

subsection \<open>Auxiliary notions for the proofs\<close>

text \<open>
  The number of array elements stored in a Map of arrays, and one pass of the grouping
  loop written without the \<open>undefined\<close> branch (shown below to be what
  \<open>group_loop\<close> does in every pass).
\<close>

definition total_size :: "('k, 'a list) js_map \<Rightarrow> nat" where
  "total_size m = sum_list (map (\<lambda>e. length (snd e)) m)"

definition group_step :: "(tx \<Rightarrow> 'k) \<Rightarrow> tx \<Rightarrow> ('k, tx list) js_map \<Rightarrow> ('k, tx list) js_map" where
  "group_step key_of tx groups =
     map_set (if map_has groups (key_of tx) then groups else map_set groups (key_of tx) [])
       (key_of tx) ((case map_of groups (key_of tx) of None \<Rightarrow> [] | Some l \<Rightarrow> l) @ [tx])"

text \<open>
  Every finite double is a multiple of the least positive double \<open>2^-1074\<close>; a number
  is \<open>double_like\<close> when it is not finite or lies on that grid.
\<close>

fun is_negative :: "number \<Rightarrow> bool" where
  "is_negative (Finite q) = (q < 0)"
| "is_negative NegInfinity = True"
| "is_negative _ = False"

definition on_grid :: "rat \<Rightarrow> bool" where
  "on_grid q = (\<exists>k::int. q = of_int k * 2 powi (- 1074))"

fun double_like :: "number \<Rightarrow> bool" where
  "double_like (Finite q) = on_grid q"
| "double_like _ = True"

text \<open>A group whose profit the comparator of the sort can order.\<close>

definition comparable :: "'a stats_scheme \<Rightarrow> bool" where
  "comparable g = (profit g \<noteq> NaN \<and> double_like (profit g))"

section \<open>Properties of the rounding and of the operators\<close>

lemma bitlen_pos: "0 < n \<Longrightarrow> 1 \<le> bitlen n"
  using bitlen_eq_zero_iff[of n] bitlen_nonneg[of n] by linarith

lemma floor_log2_le:
  assumes "0 < x"
  shows "2 powi (floor_log2 x) \<le> x"
proof (cases "1 \<le> x")
  case True
  then have pos: "0 < \<lfloor>x\<rfloor>"
    by simp
  from bitlen_pos[OF pos] have e: "0 \<le> bitlen \<lfloor>x\<rfloor> - 1"
    by simp
  from bitlen_bounds[OF pos] have "(2::int) ^ nat (bitlen \<lfloor>x\<rfloor> - 1) \<le> \<lfloor>x\<rfloor>"
    by simp
  then have "(2::rat) ^ nat (bitlen \<lfloor>x\<rfloor> - 1) \<le> of_int \<lfloor>x\<rfloor>"
    by (metis of_int_le_iff of_int_numeral of_int_power)
  also have "\<dots> \<le> x"
    by simp
  finally show ?thesis
    using True e by (simp add: floor_log2_def power_int_nonneg_exp)
next
  case False
  let ?c = "\<lceil>1 / x\<rceil>"
  let ?m = "bitlen (?c - 1)"
  from False assms have "1 < 1 / x"
    by simp
  then have "1 < ?c"
    by (simp add: less_ceiling_iff)
  then have pos: "0 < ?c - 1"
    by simp
  from bitlen_bounds[OF pos] have "?c - 1 < 2 ^ nat ?m"
    by simp
  then have "?c \<le> 2 ^ nat ?m"
    by simp
  then have "(of_int ?c :: rat) \<le> 2 ^ nat ?m"
    by (metis of_int_le_iff of_int_numeral of_int_power)
  moreover have "1 / x \<le> of_int ?c"
    by simp
  ultimately have "1 / x \<le> 2 ^ nat ?m"
    by linarith
  with assms have "1 / 2 ^ nat ?m \<le> x"
    by (simp add: field_simps)
  moreover have "(2::rat) powi (- ?m) = 1 / 2 ^ nat ?m"
    using bitlen_nonneg[of "?c - 1"] by (simp add: power_int_def field_simps)
  ultimately show ?thesis
    using False by (simp add: floor_log2_def)
qed

lemma floor_log2_less:
  assumes "0 < x"
  shows "x < 2 powi (floor_log2 x + 1)"
proof (cases "1 \<le> x")
  case True
  then have pos: "0 < \<lfloor>x\<rfloor>"
    by simp
  from bitlen_pos[OF pos] have b: "0 \<le> bitlen \<lfloor>x\<rfloor>"
    by simp
  from bitlen_bounds[OF pos] have "\<lfloor>x\<rfloor> + 1 \<le> 2 ^ nat (bitlen \<lfloor>x\<rfloor>)"
    by simp
  then have "(of_int (\<lfloor>x\<rfloor> + 1) :: rat) \<le> of_int (2 ^ nat (bitlen \<lfloor>x\<rfloor>))"
    by (simp only: of_int_le_iff)
  moreover have "x < of_int (\<lfloor>x\<rfloor> + 1)"
    by linarith
  ultimately have "x < 2 ^ nat (bitlen \<lfloor>x\<rfloor>)"
    by simp
  with True b show ?thesis
    by (simp add: floor_log2_def power_int_nonneg_exp)
next
  case False
  let ?c = "\<lceil>1 / x\<rceil>"
  let ?m = "bitlen (?c - 1)"
  from False assms have "1 < 1 / x"
    by simp
  then have "1 < ?c"
    by (simp add: less_ceiling_iff)
  then have pos: "0 < ?c - 1"
    by simp
  from bitlen_pos[OF pos] have m: "0 \<le> ?m - 1"
    by simp
  from bitlen_bounds[OF pos] have "(2::int) ^ nat (?m - 1) \<le> ?c - 1"
    by simp
  then have "(of_int (2 ^ nat (?m - 1)) :: rat) \<le> of_int (?c - 1)"
    by (simp only: of_int_le_iff)
  moreover have "of_int (?c - 1) < 1 / x"
    using ceiling_correct[of "1 / x"] by simp
  ultimately have "(2::rat) ^ nat (?m - 1) < 1 / x"
    by simp
  with assms have "x < 1 / 2 ^ nat (?m - 1)"
    by (simp add: field_simps)
  moreover have "(2::rat) powi (- ?m + 1) = 1 / 2 ^ nat (?m - 1)"
  proof -
    have "(2::rat) powi (- (?m - 1)) = inverse (2 powi (?m - 1))"
      by (rule power_int_minus)
    with m show ?thesis
      by (simp add: power_int_nonneg_exp inverse_eq_divide)
  qed
  ultimately show ?thesis
    using False by (simp add: floor_log2_def)
qed

lemma ulp_pos: "0 < ulp x"
  by (simp add: ulp_def)

lemma ulp_le:
  assumes "2 powi (- 1074) \<le> \<bar>x\<bar>"
  shows "ulp x \<le> \<bar>x\<bar>"
proof (cases "- 1022 \<le> floor_log2 \<bar>x\<bar>")
  case True
  have pos: "0 < \<bar>x\<bar>"
    using assms zero_less_power_int[of "2::rat" "- 1074"] by linarith
  have "ulp x = 2 powi (floor_log2 \<bar>x\<bar> - 52)"
    using True by (simp add: ulp_def max_def)
  also have "\<dots> \<le> 2 powi (floor_log2 \<bar>x\<bar>)"
    by (rule power_int_increasing) simp_all
  also have "\<dots> \<le> \<bar>x\<bar>"
    by (rule floor_log2_le[OF pos])
  finally show ?thesis .
next
  case False
  then have "ulp x = 2 powi (- 1074)"
    by (simp add: ulp_def max_def)
  with assms show ?thesis
    by simp
qed

lemma round_even_near: "\<bar>of_int (round_even y) - y\<bar> \<le> 1 / 2"
proof -
  have "of_int \<lfloor>y\<rfloor> \<le> y" "y < of_int \<lfloor>y\<rfloor> + 1"
    by linarith+
  then show ?thesis
    by (auto simp: round_even_def Let_def)
qed

lemma round_even_of_int: "round_even (of_int k) = k"
  by (simp add: round_even_def)

lemma round_even_ge_1: "1 \<le> y \<Longrightarrow> 1 \<le> round_even y"
  using round_even_near[of y] by linarith

lemma round_even_le_m1: "y \<le> - 1 \<Longrightarrow> round_even y \<le> - 1"
  using round_even_near[of y] by linarith

lemma fl_zero: "fl 0 = Finite 0"
  by (simp add: fl_def)

lemma fl_not_NaN: "fl x \<noteq> NaN"
  by (simp add: fl_def Let_def)

lemma fl_positive:
  assumes "2 powi (- 1074) \<le> x"
  shows "is_positive (fl x)"
proof -
  have pos: "0 < x"
    using assms zero_less_power_int[of "2::rat" "- 1074"] by linarith
  then have "ulp x \<le> x"
    using ulp_le[of x] assms by simp
  then have "1 \<le> x / ulp x"
    using ulp_pos[of x] by (simp add: field_simps)
  then have "1 \<le> round_even (x / ulp x)"
    by (rule round_even_ge_1)
  then have "0 < (of_int (round_even (x / ulp x)) :: rat) * ulp x"
    using ulp_pos[of x] by simp
  with pos show ?thesis
    by (simp add: fl_def Let_def)
qed

lemma fl_negative:
  assumes "x \<le> - (2 powi (- 1074))"
  shows "is_negative (fl x)"
proof -
  have neg: "x < 0"
    using assms zero_less_power_int[of "2::rat" "- 1074"] by linarith
  then have "ulp x \<le> - x"
    using ulp_le[of x] assms by simp
  then have "x / ulp x \<le> - 1"
    using ulp_pos[of x] by (simp add: field_simps)
  then have "round_even (x / ulp x) \<le> - 1"
    by (rule round_even_le_m1)
  then have "(of_int (round_even (x / ulp x)) :: rat) \<le> - 1"
    by (metis of_int_le_iff of_int_minus of_int_1)
  then have "(of_int (round_even (x / ulp x)) :: rat) * ulp x < 0"
    using ulp_pos[of x] by (simp add: mult_neg_pos)
  with neg show ?thesis
    by (simp add: fl_def Let_def)
qed

lemma ulp_grid: "\<exists>k::int. ulp x = of_int k * 2 powi (- 1074)"
proof -
  let ?e = "max (floor_log2 \<bar>x\<bar>) (- 1022)"
  have "0 \<le> ?e + 1022"
    by simp
  have "ulp x = 2 powi ((?e + 1022) + (- 1074))"
    by (simp add: ulp_def)
  also have "\<dots> = 2 powi (?e + 1022) * 2 powi (- 1074)"
    by (rule power_int_add) simp
  also have "(2::rat) powi (?e + 1022) = of_int (2 ^ nat (?e + 1022))"
    using \<open>0 \<le> ?e + 1022\<close> by (simp add: power_int_nonneg_exp)
  finally show ?thesis
    by blast
qed

lemma on_grid_iff: "on_grid q \<longleftrightarrow> (\<exists>k::int. q = of_int k * 2 powi (- 1074))"
  by (simp only: on_grid_def)

lemma fl_grid: "fl x = Finite y \<Longrightarrow> on_grid y"
proof -
  assume a: "fl x = Finite y"
  obtain k :: int where k: "ulp x = of_int k * 2 powi (- 1074)"
    using ulp_grid by blast
  show "on_grid y"
  proof (cases "x = 0")
    case True
    with a have "y = of_int 0 * 2 powi (- 1074)" by (simp add: fl_def)
    then show ?thesis unfolding on_grid_iff by blast
  next
    case False
    with a have "y = of_int (round_even (x / ulp x)) * ulp x"
      by (simp add: fl_def Let_def split: if_splits)
    then have "y = of_int (round_even (x / ulp x) * k) * 2 powi (- 1074)"
      by (simp add: k)
    then show ?thesis
      unfolding on_grid_iff by blast
  qed
qed

lemma grid_gap:
  assumes "on_grid a" and "on_grid b" and "a < b"
  shows "2 powi (- 1074) \<le> b - a"
proof -
  from assms(1,2) obtain i j :: int where
    a: "a = of_int i * 2 powi (- 1074)" and b: "b = of_int j * 2 powi (- 1074)"
    unfolding on_grid_iff by blast
  have g: "(0::rat) < 2 powi (- 1074)"
    by simp
  from assms(3) have "of_int i * (2::rat) powi (- 1074) < of_int j * 2 powi (- 1074)"
    by (simp only: a b)
  with g have "(of_int i :: rat) < of_int j"
    by (simp only: mult_less_cancel_right_pos)
  then have "i + 1 \<le> j"
    by simp
  then have "(of_int (i + 1) :: rat) \<le> of_int j"
    by (simp only: of_int_le_iff)
  then have "of_int (i + 1) * (2::rat) powi (- 1074) \<le> of_int j * 2 powi (- 1074)"
    using g by (simp only: mult_le_cancel_right_pos)
  then show ?thesis
    by (simp add: a b algebra_simps)
qed

lemma fl_double_like: "double_like (fl x)"
  by (cases "fl x") (simp_all add: fl_grid)

lemma js_sub_double_like: "double_like (js_sub a b)"
  by (cases a; cases b) (simp_all add: fl_double_like)

lemma negative_not_positive: "is_negative v \<Longrightarrow> \<not> is_positive v"
  by (cases v) simp_all

lemma fl_sign:
  assumes "on_grid a" and "on_grid b"
  shows "is_positive (nan_to_zero (fl (b - a))) \<longleftrightarrow> a < b"
proof -
  have nz: "nan_to_zero (fl (b - a)) = fl (b - a)"
    using fl_not_NaN[of "b - a"] by (cases "fl (b - a)") simp_all
  consider "a < b" | "a = b" | "b < a"
    by linarith
  then show ?thesis
  proof cases
    case 1
    from fl_positive[OF grid_gap[OF assms 1]] 1 show ?thesis
      by (simp add: nz)
  next
    case 2
    then show ?thesis
      by (simp add: fl_zero)
  next
    case 3
    from grid_gap[OF assms(2,1) 3] have "b - a \<le> - (2 powi (- 1074))"
      by simp
    from negative_not_positive[OF fl_negative[OF this]] 3 show ?thesis
      by (simp add: nz)
  qed
qed

lemma compare_sign:
  assumes "double_like a" and "double_like b" and "a \<noteq> NaN" and "b \<noteq> NaN"
  shows "is_positive (nan_to_zero (js_sub b a)) \<longleftrightarrow> js_less a b"
  using assms by (cases a; cases b) (simp_all add: fl_sign)

lemma js_ge_trans: "js_ge a b \<Longrightarrow> js_ge b c \<Longrightarrow> js_ge a c"
  by (cases a; cases b; cases c) (simp_all add: js_ge_def)

lemma js_ge_total: "a \<noteq> NaN \<Longrightarrow> b \<noteq> NaN \<Longrightarrow> js_less a b \<Longrightarrow> js_ge b a"
  by (cases a; cases b) (simp_all add: js_ge_def)

lemma fl_exact:
  assumes "x / ulp x = of_int m" and "\<bar>x\<bar> < 2 ^ 1024"
  shows "fl x = Finite x"
proof (cases "x = 0")
  case True
  then show ?thesis by (simp add: fl_zero)
next
  case False
  have "(of_int (round_even (x / ulp x)) :: rat) = x / ulp x"
    by (simp add: assms(1) round_even_of_int)
  then have "of_int (round_even (x / ulp x)) * ulp x = x"
    using ulp_pos[of x] by simp
  with False assms(2) show ?thesis
    by (simp add: fl_def Let_def)
qed

lemma ulp_of_int:
  assumes "n \<noteq> 0"
  shows "ulp (of_int n) = 2 powi (bitlen \<bar>n\<bar> - 53)"
proof -
  have pos: "0 < \<bar>n\<bar>"
    using assms by simp
  from pos have "1 \<le> \<bar>n\<bar>"
    by simp
  then have "(of_int 1 :: rat) \<le> of_int \<bar>n\<bar>"
    by (simp only: of_int_le_iff)
  then have "(1::rat) \<le> \<bar>of_int n\<bar>"
    by simp
  moreover have "\<lfloor>\<bar>of_int n :: rat\<bar>\<rfloor> = \<bar>n\<bar>"
    by (metis floor_of_int of_int_abs)
  ultimately have "floor_log2 \<bar>of_int n\<bar> = bitlen \<bar>n\<bar> - 1"
    by (simp add: floor_log2_def)
  with bitlen_pos[OF pos] show ?thesis
    by (simp add: ulp_def max_def)
qed

lemma fl_of_int:
  assumes "\<bar>n\<bar> \<le> 2 ^ 53"
  shows "fl (of_int n) = Finite (of_int n)"
proof (cases "n = 0")
  case True
  then show ?thesis by (simp add: fl_zero)
next
  case False
  then have pos: "0 < \<bar>n\<bar>"
    by simp
  let ?b = "bitlen \<bar>n\<bar>"
  have u: "ulp (of_int n) = 2 powi (?b - 53)"
    by (rule ulp_of_int[OF False])
  from assms have "\<bar>n\<bar> < 2 ^ nat 54"
    by simp
  then have b54: "?b \<le> 54"
    by (simp add: bitlen_le_iff_power)
  have small: "\<bar>(of_int n :: rat)\<bar> < 2 ^ 1024"
  proof -
    have "\<bar>(of_int n :: rat)\<bar> = of_int \<bar>n\<bar>"
      by simp
    also have "\<dots> \<le> of_int (2 ^ 53)"
      using assms by (simp only: of_int_le_iff)
    also have "\<dots> < (2::rat) ^ 1024"
      by simp
    finally show ?thesis .
  qed
  have "\<exists>m::int. (of_int n :: rat) / ulp (of_int n) = of_int m"
  proof (cases "?b \<le> 53")
    case True
    have "(2::rat) powi (- (53 - ?b)) = inverse (2 powi (53 - ?b))"
      by (rule power_int_minus)
    moreover have "(2::rat) powi (53 - ?b) = 2 ^ nat (53 - ?b)"
      using True by (simp add: power_int_nonneg_exp)
    ultimately have "(2::rat) powi (?b - 53) = inverse (2 ^ nat (53 - ?b))"
      by simp
    then have "(of_int n :: rat) / ulp (of_int n) = of_int (n * 2 ^ nat (53 - ?b))"
      by (simp add: u divide_inverse)
    then show ?thesis
      by blast
  next
    case False
    with b54 have b: "?b = 54"
      by simp
    then have "(54::int) \<le> bitlen \<bar>n\<bar>"
      by simp
    then have "2 ^ 53 \<le> \<bar>n\<bar>"
      by (simp add: bitlen_ge_iff_power)
    with assms have "\<bar>n\<bar> = 2 ^ 53"
      by simp
    then have "even \<bar>n\<bar>"
      by simp
    then have "even n"
      by simp
    then have "n = 2 * (n div 2)"
      by simp
    then have half: "(of_int n :: rat) = 2 * of_int (n div 2)"
      by (metis of_int_mult of_int_numeral)
    have "ulp (of_int n) = 2"
      by (simp add: u b)
    then have "(of_int n :: rat) / ulp (of_int n) = of_int n / 2"
      by simp
    also have "\<dots> = of_int (n div 2)"
      by (subst half) simp
    finally have "(of_int n :: rat) / ulp (of_int n) = of_int (n div 2)" .
    then show ?thesis
      by blast
  qed
  then obtain m :: int where "(of_int n :: rat) / ulp (of_int n) = of_int m"
    by blast
  from fl_exact[OF this small] show ?thesis .
qed

lemma fl_numeral:
  "numeral k \<le> (9007199254740992::int) \<Longrightarrow> fl (numeral k) = Finite (numeral k)"
  "numeral k \<le> (9007199254740992::int) \<Longrightarrow> fl (- numeral k) = Finite (- numeral k)"
  "fl 1 = Finite 1"
  using fl_of_int[of "numeral k"] fl_of_int[of "- numeral k"] fl_of_int[of 1]
  by simp_all

lemma floor_rat_numeral_div [simp]: "\<lfloor>numeral a / numeral b :: rat\<rfloor> = numeral a div numeral b"
  by (metis floor_divide_of_int_eq of_int_numeral)

lemmas fl_eval = fl_def ulp_def floor_log2_def round_even_def compute_bitlen Let_def

lemma fl_six_tenths: "fl (6 / 10) = Finite (5404319552844595 / 9007199254740992)"
  by (simp add: fl_eval)

lemma fl_tenth: "fl (1 / 10) = Finite (3602879701896397 / 36028797018963968)"
  by (simp add: fl_eval)

lemma fl_2_53_plus_1: "fl 9007199254740993 = Finite 9007199254740992"
  by (simp add: fl_eval)

section \<open>Properties of the Map operations and of the grouping loop\<close>

lemma map_get_map_of: "map_get m k = map_of m k"
  by (induction m) auto

lemma map_of_map_set: "map_of (map_set m k v) = (map_of m)(k \<mapsto> v)"
  by (induction m) (auto simp: fun_eq_iff)

lemma keys_map_set:
  "map fst (map_set m k v) = (if k \<in> fst ` set m then map fst m else map fst m @ [k])"
  by (induction m) force+

lemma distinct_map_set: "distinct (map fst m) \<Longrightarrow> distinct (map fst (map_set m k v))"
  by (simp add: keys_map_set)

lemma total_size_set_new: "\<not> map_has m k \<Longrightarrow> total_size (map_set m k []) = total_size m"
  by (induction m) (auto simp: total_size_def)

lemma total_size_push:
  "map_get m k = Some l \<Longrightarrow> total_size (map_set m k (l @ [x])) = Suc (total_size m)"
  by (induction m) (auto simp: total_size_def)

lemma map_has_map_of: "map_has m k \<longleftrightarrow> map_of m k \<noteq> None"
  by (induction m) auto

lemma group_loop_Cons:
  "group_loop key_of (tx # txs) groups = group_loop key_of txs (group_step key_of tx groups)"
  by (cases "map_of groups (key_of tx)")
     (simp_all add: group_step_def Let_def map_get_map_of map_of_map_set map_has_map_of)


lemma group_step_distinct:
  "distinct (map fst g) \<Longrightarrow> distinct (map fst (group_step key_of tx g))"
  by (simp add: group_step_def distinct_map_set)

lemma group_step_map_of:
  "map_of (group_step key_of tx g) =
     (map_of g)(key_of tx \<mapsto> (case map_of g (key_of tx) of None \<Rightarrow> [] | Some l \<Rightarrow> l) @ [tx])"
  by (simp add: group_step_def map_of_map_set)

lemma group_step_total_size: "total_size (group_step key_of tx g) = Suc (total_size g)"
proof (cases "map_of g (key_of tx)")
  case None
  let ?g1 = "map_set g (key_of tx) []"
  from None have new: "\<not> map_has g (key_of tx)"
    by (simp add: map_has_map_of)
  have "map_get ?g1 (key_of tx) = Some []"
    by (simp add: map_get_map_of map_of_map_set)
  from total_size_push[OF this, of tx] new None show ?thesis
    by (simp add: group_step_def total_size_set_new)
next
  case (Some l)
  then have "map_get g (key_of tx) = Some l" "map_has g (key_of tx)"
    by (simp_all add: map_get_map_of map_has_map_of)
  with Some total_size_push[of g "key_of tx" l tx] show ?thesis
    by (simp add: group_step_def)
qed

lemma group_loop_Some: "\<exists>g'. group_loop key_of txs g = Some g'"
  by (induction txs arbitrary: g) (simp_all only: group_loop.simps(1) group_loop_Cons, blast+)

lemma group_loop_distinct:
  "group_loop key_of txs g = Some g' \<Longrightarrow> distinct (map fst g) \<Longrightarrow> distinct (map fst g')"
proof (induction txs arbitrary: g)
  case Nil then show ?case by simp
next
  case (Cons tx txs)
  from Cons.prems(1) have "group_loop key_of txs (group_step key_of tx g) = Some g'"
    by (simp only: group_loop_Cons)
  then show ?case using Cons.prems(2) by (rule Cons.IH[OF _ group_step_distinct])
qed

lemma group_loop_total_size:
  "group_loop key_of txs g = Some g' \<Longrightarrow> total_size g' = total_size g + length txs"
proof (induction txs arbitrary: g)
  case Nil then show ?case by simp
next
  case (Cons tx txs)
  from Cons.prems have "group_loop key_of txs (group_step key_of tx g) = Some g'"
    by (simp only: group_loop_Cons)
  from Cons.IH[OF this] show ?case by (simp add: group_step_total_size)
qed

lemma group_loop_map_of:
  "group_loop key_of txs g = Some g' \<Longrightarrow>
   map_of g' k =
     (if map_of g k = None \<and> k \<notin> key_of ` set txs then None
      else Some ((case map_of g k of None \<Rightarrow> [] | Some l \<Rightarrow> l) @ filter (\<lambda>tx. key_of tx = k) txs))"
proof (induction txs arbitrary: g)
  case Nil then show ?case by (auto split: option.splits)
next
  case (Cons tx txs)
  from Cons.prems have "group_loop key_of txs (group_step key_of tx g) = Some g'"
    by (simp only: group_loop_Cons)
  from Cons.IH[OF this] show ?case
    by (auto simp: group_step_map_of split: option.splits)
qed

section \<open>Properties of the accumulators, of the sort and of the reports\<close>

lemma accumulate_sums:
  "accumulate list (r, e, p, s) =
     (foldl js_add r (map price (filter (\<lambda>tx. transaction_type tx = Some ''sale'') list)),
      foldl js_add e (map price (filter (\<lambda>tx. transaction_type tx = Some ''purchase'') list)),
      foldl js_add p (map quantity (filter (\<lambda>tx. transaction_type tx = Some ''purchase'') list)),
      foldl js_add s (map quantity (filter (\<lambda>tx. transaction_type tx = Some ''sale'') list)))"
  by (induction list arbitrary: r e p s) simp_all

lemma accumulate_sum_of:
  "accumulate list (Finite 0, Finite 0, Finite 0, Finite 0) =
     (sum_of price ''sale'' list, sum_of price ''purchase'' list,
      sum_of quantity ''purchase'' list, sum_of quantity ''sale'' list)"
  by (simp only: accumulate_sums sum_of_def js_sum_def)

lemma user_entry_eq:
  "user_entry (k, list) =
     \<lparr>profit = js_sub (sum_of price ''sale'' list) (sum_of price ''purchase'' list),
      revenue = sum_of price ''sale'' list,
      expense = sum_of price ''purchase'' list,
      number_of_trades = length list,
      purchases = sum_of quantity ''purchase'' list,
      sales = sum_of quantity ''sale'' list,
      profit_margin =
        (if js_strict_eq (sum_of price ''sale'' list) (Finite 0) then Finite 0
         else js_div (js_sub (sum_of price ''sale'' list) (sum_of price ''purchase'' list))
                (sum_of price ''sale'' list)),
      user = k\<rparr>"
  by (simp add: user_entry_def accumulate_sum_of Let_def)

lemma riven_entry_eq:
  "riven_entry (k, list) =
     \<lparr>profit = js_sub (sum_of price ''sale'' list) (sum_of price ''purchase'' list),
      revenue = sum_of price ''sale'' list,
      expense = sum_of price ''purchase'' list,
      number_of_trades = length list,
      purchases = sum_of quantity ''purchase'' list,
      sales = sum_of quantity ''sale'' list,
      profit_margin =
        (if js_strict_eq (sum_of price ''sale'' list) (Finite 0) then Finite 0
         else js_div (js_sub (sum_of price ''sale'' list) (sum_of price ''purchase'' list))
                (sum_of price ''sale'' list)),
      riven = k\<rparr>"
  by (simp add: riven_entry_def accumulate_sum_of Let_def)

lemma mset_insert_by: "mset (insert_by cmp x xs) = add_mset x (mset xs)"
  by (induction xs) simp_all

lemma mset_array_sort: "mset (array_sort cmp xs) = mset xs"
  by (induction xs) (simp_all add: array_sort_def mset_insert_by)

lemma set_array_sort: "set (array_sort cmp xs) = set xs"
  using mset_array_sort[of cmp xs] by (metis set_mset_mset)

lemma set_insert_by: "set (insert_by cmp x xs) = insert x (set xs)"
  using mset_insert_by[of cmp x xs] by (metis set_mset_mset set_mset_add_mset_insert)

text \<open>
  The comparator orders numbers that are not \<open>NaN\<close>: its value is positive exactly when
  the first profit is less than the second.
\<close>

lemma by_profit_desc_positive:
  "comparable x \<Longrightarrow> comparable y \<Longrightarrow>
   is_positive (nan_to_zero (by_profit_desc x y)) \<longleftrightarrow> js_less (profit x) (profit y)"
  unfolding by_profit_desc_def comparable_def by (intro compare_sign) simp_all

lemma sorted_insert_by:
  assumes "sorted_wrt (\<lambda>a b. js_ge (profit a) (profit b)) ys"
    and "comparable x" and "\<forall>y \<in> set ys. comparable y"
  shows "sorted_wrt (\<lambda>a b. js_ge (profit a) (profit b)) (insert_by by_profit_desc x ys)"
  using assms
proof (induction ys)
  case Nil
  then show ?case by simp
next
  case (Cons y ys)
  from Cons.prems have y: "comparable y" and ys: "\<forall>z \<in> set ys. comparable z"
    and sorted: "sorted_wrt (\<lambda>a b. js_ge (profit a) (profit b)) ys"
    and above: "\<forall>z \<in> set ys. js_ge (profit y) (profit z)"
    by simp_all
  show ?case
  proof (cases "js_less (profit x) (profit y)")
    case True
    with Cons.prems(2) y have "js_ge (profit y) (profit x)"
      by (simp add: comparable_def js_ge_total)
    with True above Cons.IH[OF sorted Cons.prems(2) ys] Cons.prems(2) y show ?thesis
      by (simp add: by_profit_desc_positive set_insert_by)
  next
    case False
    with Cons.prems(2) y have xy: "js_ge (profit x) (profit y)"
      by (simp add: comparable_def js_ge_def)
    with above have "\<forall>z \<in> set ys. js_ge (profit x) (profit z)"
      by (blast intro: js_ge_trans)
    with False xy Cons.prems(1,2) y show ?thesis
      by (simp add: by_profit_desc_positive)
  qed
qed

lemma sorted_array_sort:
  "\<forall>x \<in> set xs. comparable x \<Longrightarrow>
   sorted_wrt (\<lambda>a b. js_ge (profit a) (profit b)) (array_sort by_profit_desc xs)"
proof (induction xs)
  case Nil
  then show ?case by (simp add: array_sort_def)
next
  case (Cons x xs)
  then have "sorted_wrt (\<lambda>a b. js_ge (profit a) (profit b)) (array_sort by_profit_desc xs)"
    and "comparable x" and "\<forall>y \<in> set (array_sort by_profit_desc xs). comparable y"
    by (simp_all add: set_array_sort)
  from sorted_insert_by[OF this] show ?case
    by (simp add: array_sort_def)
qed

lemma group_loop_entries:
  assumes "group_loop key_of txs [] = Some g"
  shows "distinct (map fst g)"
    and "(k, l) \<in> set g \<longleftrightarrow> k \<in> key_of ` set txs \<and> l = filter (\<lambda>tx. key_of tx = k) txs"
proof -
  show d: "distinct (map fst g)"
    using group_loop_distinct[OF assms] by simp
  have "(k, l) \<in> set g \<longleftrightarrow> map_of g k = Some l"
    using d by simp
  also have "\<dots> \<longleftrightarrow> k \<in> key_of ` set txs \<and> l = filter (\<lambda>tx. key_of tx = k) txs"
    by (auto simp: group_loop_map_of[OF assms])
  finally show "(k, l) \<in> set g \<longleftrightarrow> k \<in> key_of ` set txs \<and> l = filter (\<lambda>tx. key_of tx = k) txs" .
qed


lemma sum_list_array_sort:
  "sum_list (map f (array_sort cmp xs)) = sum_list (map (f :: 'a \<Rightarrow> nat) xs)"
proof -
  have "mset (map f (array_sort cmp xs)) = mset (map f xs)"
    by (simp add: mset_array_sort)
  then show ?thesis
    by (metis sum_mset_sum_list)
qed

lemma distinct_map_array_sort:
  "distinct (map f (array_sort cmp xs)) \<longleftrightarrow> distinct (map f xs)"
proof -
  have "mset (map f (array_sort cmp xs)) = mset (map f xs)"
    by (simp add: mset_array_sort)
  then show ?thesis
    by (rule mset_eq_imp_distinct_iff)
qed

lemma user_of_entry: "user (user_entry e) = fst e"
  by (cases e) (simp add: user_entry_eq)

lemma trades_of_user_entry: "number_of_trades (user_entry e) = length (snd e)"
  by (cases e) (simp add: user_entry_eq)

lemma riven_of_entry: "riven (riven_entry e) = fst e"
  by (cases e) (simp add: riven_entry_eq)

lemma trades_of_riven_entry: "number_of_trades (riven_entry e) = length (snd e)"
  by (cases e) (simp add: riven_entry_eq)

lemma getUserStatistics_Some: "\<exists>us. getUserStatistics txs = Some us"
  using group_loop_Some[of user_key txs "[]"] by (auto simp: getUserStatistics_def)

lemma getRivenStatistics_Some: "\<exists>rs. getRivenStatistics txs = Some rs"
  using group_loop_Some[of riven_key "filter (\<lambda>tx. item_type tx = Some ''riven'') txs" "[]"]
  by (auto simp: getRivenStatistics_def)

lemma user_report:
  assumes "getUserStatistics txs = Some us"
  shows user_report_mem:
      "g \<in> set us \<longleftrightarrow> (\<exists>k \<in> user_key ` set txs. g = user_entry (k, user_group txs k))"
    and user_report_distinct: "distinct (map user us)"
    and user_report_trades: "sum_list (map number_of_trades us) = length txs"
proof -
  from assms obtain groups where
    loop: "group_loop user_key txs [] = Some groups" and
    us: "us = array_sort by_profit_desc (map user_entry groups)"
    by (auto simp: getUserStatistics_def split: option.splits)
  have "g \<in> set us \<longleftrightarrow> (\<exists>k l. (k, l) \<in> set groups \<and> g = user_entry (k, l))"
    by (auto simp: us set_array_sort)
  also have "\<dots> \<longleftrightarrow> (\<exists>k \<in> user_key ` set txs. g = user_entry (k, user_group txs k))"
    unfolding group_loop_entries(2)[OF loop] user_group_def by blast
  finally show "g \<in> set us \<longleftrightarrow> (\<exists>k \<in> user_key ` set txs. g = user_entry (k, user_group txs k))" .
  have "user \<circ> user_entry = fst"
    by (rule ext) (simp add: user_of_entry)
  with group_loop_entries(1)[OF loop] show "distinct (map user us)"
    by (simp add: us distinct_map_array_sort)
  have "sum_list (map number_of_trades us) = total_size groups"
    by (simp add: us sum_list_array_sort total_size_def trades_of_user_entry comp_def)
  then show "sum_list (map number_of_trades us) = length txs"
    using group_loop_total_size[OF loop] by (simp add: total_size_def)
qed

lemma riven_report:
  assumes "getRivenStatistics txs = Some rs"
  shows riven_report_mem:
      "g \<in> set rs \<longleftrightarrow>
        (\<exists>tx \<in> set txs. item_type tx = Some ''riven'' \<and>
           g = riven_entry (item_name tx, riven_group txs (item_name tx)))"
    and riven_report_distinct: "distinct (map riven rs)"
    and riven_report_trades:
      "sum_list (map number_of_trades rs) = length (filter (\<lambda>tx. item_type tx = Some ''riven'') txs)"
proof -
  let ?txs = "filter (\<lambda>tx. item_type tx = Some ''riven'') txs"
  from assms obtain groups where
    loop: "group_loop riven_key ?txs [] = Some groups" and
    rs: "rs = array_sort by_profit_desc (map riven_entry groups)"
    by (auto simp: getRivenStatistics_def split: option.splits)
  have grp: "filter (\<lambda>tx. riven_key tx = k) ?txs = riven_group txs k" for k
    by (simp add: riven_group_def riven_key_def)
  have "g \<in> set rs \<longleftrightarrow> (\<exists>k l. (k, l) \<in> set groups \<and> g = riven_entry (k, l))"
    by (auto simp: rs set_array_sort)
  also have "\<dots> \<longleftrightarrow> (\<exists>k \<in> riven_key ` set ?txs. g = riven_entry (k, riven_group txs k))"
    unfolding group_loop_entries(2)[OF loop] grp by blast
  also have "\<dots> \<longleftrightarrow> (\<exists>tx \<in> set txs. item_type tx = Some ''riven'' \<and>
           g = riven_entry (item_name tx, riven_group txs (item_name tx)))"
    by (auto simp: riven_key_def)
  finally show "g \<in> set rs \<longleftrightarrow>
        (\<exists>tx \<in> set txs. item_type tx = Some ''riven'' \<and>
           g = riven_entry (item_name tx, riven_group txs (item_name tx)))" .
  have "riven \<circ> riven_entry = fst"
    by (rule ext) (simp add: riven_of_entry)
  with group_loop_entries(1)[OF loop] show "distinct (map riven rs)"
    by (simp add: rs distinct_map_array_sort)
  have "sum_list (map number_of_trades rs) = total_size groups"
    by (simp add: rs sum_list_array_sort total_size_def trades_of_riven_entry comp_def)
  then show "sum_list (map number_of_trades rs) = length ?txs"
    using group_loop_total_size[OF loop] by (simp add: total_size_def)
qed

lemmas eval_defs = getUserStatistics_def getRivenStatistics_def user_key_def riven_key_def
  user_entry_def riven_entry_def array_sort_def by_profit_desc_def js_strict_eq_def Let_def
  row_def fl_numeral fl_zero

lemma user_entry_fields:
  "user (user_entry (k, l)) = k"
  "revenue (user_entry (k, l)) = sum_of price ''sale'' l"
  "expense (user_entry (k, l)) = sum_of price ''purchase'' l"
  "purchases (user_entry (k, l)) = sum_of quantity ''purchase'' l"
  "sales (user_entry (k, l)) = sum_of quantity ''sale'' l"
  "number_of_trades (user_entry (k, l)) = length l"
  "profit (user_entry (k, l)) = js_sub (revenue (user_entry (k, l))) (expense (user_entry (k, l)))"
  "profit_margin (user_entry (k, l)) =
     (if revenue (user_entry (k, l)) = Finite 0 then Finite 0
      else js_div (profit (user_entry (k, l))) (revenue (user_entry (k, l))))"
  by (simp_all add: user_entry_eq js_strict_eq_def)

lemma riven_entry_fields:
  "riven (riven_entry (k, l)) = k"
  "revenue (riven_entry (k, l)) = sum_of price ''sale'' l"
  "expense (riven_entry (k, l)) = sum_of price ''purchase'' l"
  "purchases (riven_entry (k, l)) = sum_of quantity ''purchase'' l"
  "sales (riven_entry (k, l)) = sum_of quantity ''sale'' l"
  "number_of_trades (riven_entry (k, l)) = length l"
  "profit (riven_entry (k, l)) = js_sub (revenue (riven_entry (k, l))) (expense (riven_entry (k, l)))"
  "profit_margin (riven_entry (k, l)) =
     (if revenue (riven_entry (k, l)) = Finite 0 then Finite 0
      else js_div (profit (riven_entry (k, l))) (revenue (riven_entry (k, l))))"
  by (simp_all add: riven_entry_eq js_strict_eq_def)

lemma user_report_group:
  assumes "getUserStatistics txs = Some us" and "g \<in> set us"
  shows "g = user_entry (user g, user_group txs (user g))"
    and "user g \<in> user_key ` set txs"
proof -
  from user_report_mem[OF assms(1), of g] assms(2) obtain k where
    k: "k \<in> user_key ` set txs" and g: "g = user_entry (k, user_group txs k)"
    by blast
  from g have "user g = k"
    by (simp add: user_entry_fields(1))
  with k g show "g = user_entry (user g, user_group txs (user g))"
    and "user g \<in> user_key ` set txs"
    by simp_all
qed

lemma riven_report_group:
  assumes "getRivenStatistics txs = Some rs" and "g \<in> set rs"
  shows "g = riven_entry (riven g, riven_group txs (riven g))"
    and "\<exists>tx \<in> set txs. item_type tx = Some ''riven'' \<and> item_name tx = riven g"
proof -
  from riven_report_mem[OF assms(1), of g] assms(2) obtain tx where
    tx: "tx \<in> set txs" "item_type tx = Some ''riven''" and
    g: "g = riven_entry (item_name tx, riven_group txs (item_name tx))"
    by blast
  from g have "riven g = item_name tx"
    by (simp add: riven_entry_fields(1))
  with tx g show "g = riven_entry (riven g, riven_group txs (riven g))"
    and "\<exists>tx \<in> set txs. item_type tx = Some ''riven'' \<and> item_name tx = riven g"
    by auto
qed

lemma user_key_nonempty: "user_key tx \<noteq> []"
  by (simp add: user_key_def split: option.splits)

lemma user_key_Unknown:
  "user_key tx = ''Unknown'' \<longleftrightarrow>
     ingame_name tx = None \<or> ingame_name tx = Some [] \<or> ingame_name tx = Some ''Unknown''"
  by (auto simp: user_key_def split: option.splits)

lemma filter_key_le_1: "distinct (map f xs) \<Longrightarrow> length (filter (\<lambda>x. f x = k) xs) \<le> 1"
  by (induction xs) (auto simp: filter_empty_conv image_iff)

lemma user_report_fields:
  assumes "getUserStatistics txs = Some us" and "g \<in> set us"
  shows "revenue g = sum_of price ''sale'' (user_group txs (user g))"
    and "expense g = sum_of price ''purchase'' (user_group txs (user g))"
    and "purchases g = sum_of quantity ''purchase'' (user_group txs (user g))"
    and "sales g = sum_of quantity ''sale'' (user_group txs (user g))"
    and "number_of_trades g = length (user_group txs (user g))"
    and "profit g = js_sub (revenue g) (expense g)"
    and "profit_margin g =
           (if revenue g = Finite 0 then Finite 0 else js_div (profit g) (revenue g))"
proof -
  define k where "k = user g"
  have g: "g = user_entry (k, user_group txs k)"
    unfolding k_def by (rule user_report_group(1)[OF assms])
  show "revenue g = sum_of price ''sale'' (user_group txs (user g))"
    and "expense g = sum_of price ''purchase'' (user_group txs (user g))"
    and "purchases g = sum_of quantity ''purchase'' (user_group txs (user g))"
    and "sales g = sum_of quantity ''sale'' (user_group txs (user g))"
    and "number_of_trades g = length (user_group txs (user g))"
    and "profit g = js_sub (revenue g) (expense g)"
    and "profit_margin g =
           (if revenue g = Finite 0 then Finite 0 else js_div (profit g) (revenue g))"
    unfolding g by (simp_all only: user_entry_fields)
qed

lemma riven_report_fields:
  assumes "getRivenStatistics txs = Some rs" and "g \<in> set rs"
  shows "revenue g = sum_of price ''sale'' (riven_group txs (riven g))"
    and "expense g = sum_of price ''purchase'' (riven_group txs (riven g))"
    and "purchases g = sum_of quantity ''purchase'' (riven_group txs (riven g))"
    and "sales g = sum_of quantity ''sale'' (riven_group txs (riven g))"
    and "number_of_trades g = length (riven_group txs (riven g))"
    and "profit g = js_sub (revenue g) (expense g)"
    and "profit_margin g =
           (if revenue g = Finite 0 then Finite 0 else js_div (profit g) (revenue g))"
proof -
  define k where "k = riven g"
  have g: "g = riven_entry (k, riven_group txs k)"
    unfolding k_def by (rule riven_report_group(1)[OF assms])
  show "revenue g = sum_of price ''sale'' (riven_group txs (riven g))"
    and "expense g = sum_of price ''purchase'' (riven_group txs (riven g))"
    and "purchases g = sum_of quantity ''purchase'' (riven_group txs (riven g))"
    and "sales g = sum_of quantity ''sale'' (riven_group txs (riven g))"
    and "number_of_trades g = length (riven_group txs (riven g))"
    and "profit g = js_sub (revenue g) (expense g)"
    and "profit_margin g =
           (if revenue g = Finite 0 then Finite 0 else js_div (profit g) (revenue g))"
    unfolding g by (simp_all only: riven_entry_fields)
qed

lemma unique_by_key:
  assumes "distinct (map f xs)" and "\<exists>g \<in> set xs. f g = k"
  shows "\<exists>!g. g \<in> set xs \<and> f g = k"
proof -
  from assms(1) have "inj_on f (set xs)"
    by (simp add: distinct_map)
  with assms(2) show ?thesis
    by (auto dest: inj_onD)
qed

lemma user_report_key:
  assumes "getUserStatistics txs = Some us" and "tx \<in> set txs"
  shows "\<exists>g \<in> set us. user g = user_key tx \<and> g = user_entry (user_key tx, user_group txs (user_key tx))"
proof -
  let ?g = "user_entry (user_key tx, user_group txs (user_key tx))"
  from assms(2) have "?g \<in> set us"
    unfolding user_report_mem[OF assms(1)] by blast
  then show ?thesis
    by (intro bexI[of _ ?g]) (simp_all add: user_entry_fields(1))
qed

lemma riven_report_key:
  assumes "getRivenStatistics txs = Some rs" and "tx \<in> set txs" and "item_type tx = Some ''riven''"
  shows "\<exists>g \<in> set rs. riven g = item_name tx \<and>
           g = riven_entry (item_name tx, riven_group txs (item_name tx))"
proof -
  let ?g = "riven_entry (item_name tx, riven_group txs (item_name tx))"
  from assms(2,3) have "?g \<in> set rs"
    unfolding riven_report_mem[OF assms(1)] by blast
  then show ?thesis
    by (intro bexI[of _ ?g]) (simp_all add: riven_entry_fields(1))
qed

lemma user_group_insert:
  "transaction_type tx \<noteq> Some d \<Longrightarrow>
   sum_of f d (user_group (xs @ tx # ys) k) = sum_of f d (user_group (xs @ ys) k)"
  "length (user_group (xs @ tx # ys) k) =
     (if user_key tx = k then 1 else 0) + length (user_group (xs @ ys) k)"
  by (simp_all add: user_group_def sum_of_def)

lemma riven_group_insert:
  "transaction_type tx \<noteq> Some d \<Longrightarrow>
   sum_of f d (riven_group (xs @ tx # ys) k) = sum_of f d (riven_group (xs @ ys) k)"
  "length (riven_group (xs @ tx # ys) k) =
     (if item_type tx = Some ''riven'' \<and> item_name tx = k then 1 else 0) +
     length (riven_group (xs @ ys) k)"
  by (simp_all add: riven_group_def sum_of_def)

lemma user_report_sorted:
  assumes "getUserStatistics txs = Some us" and "\<forall>g \<in> set us. profit g \<noteq> NaN"
  shows "sorted_wrt (\<lambda>a b. js_ge (profit a) (profit b)) us"
proof -
  from assms(1) obtain groups where
    us: "us = array_sort by_profit_desc (map user_entry groups)"
    by (auto simp: getUserStatistics_def split: option.splits)
  have "comparable g" if "g \<in> set (map user_entry groups)" for g
  proof -
    from that obtain k l where "g = user_entry (k, l)"
      by auto
    then have "double_like (profit g)"
      by (simp add: user_entry_fields(7) js_sub_double_like)
    moreover from that assms(2) have "profit g \<noteq> NaN"
      by (auto simp: us set_array_sort)
    ultimately show ?thesis
      by (simp add: comparable_def)
  qed
  then show ?thesis
    unfolding us by (intro sorted_array_sort ballI)
qed

lemma riven_report_sorted:
  assumes "getRivenStatistics txs = Some rs" and "\<forall>g \<in> set rs. profit g \<noteq> NaN"
  shows "sorted_wrt (\<lambda>a b. js_ge (profit a) (profit b)) rs"
proof -
  from assms(1) obtain groups where
    rs: "rs = array_sort by_profit_desc (map riven_entry groups)"
    by (auto simp: getRivenStatistics_def split: option.splits)
  have "comparable g" if "g \<in> set (map riven_entry groups)" for g
  proof -
    from that obtain k l where "g = riven_entry (k, l)"
      by auto
    then have "double_like (profit g)"
      by (simp add: riven_entry_fields(7) js_sub_double_like)
    moreover from that assms(2) have "profit g \<noteq> NaN"
      by (auto simp: rs set_array_sort)
    ultimately show ?thesis
      by (simp add: comparable_def)
  qed
  then show ?thesis
    unfolding rs by (intro sorted_array_sort ballI)
qed

section \<open>Sums of integers within the range of exact doubles\<close>

lemma is_integer_iff: "is_integer x \<longleftrightarrow> (\<exists>n::int. x = Finite (of_int n))"
proof (cases x)
  case (Finite q)
  show ?thesis
  proof
    assume "is_integer x"
    with Finite have "x = Finite (of_int \<lfloor>q\<rfloor>)"
      by (metis is_integer.simps(1))
    then show "\<exists>n::int. x = Finite (of_int n)"
      by blast
  next
    assume "\<exists>n::int. x = Finite (of_int n)"
    then obtain n :: int where "x = Finite (of_int n)"
      by blast
    then show "is_integer x"
      by simp
  qed
qed simp_all

lemma fl_of_int_rat: "\<bar>of_int n :: rat\<bar> \<le> 2 ^ 53 \<Longrightarrow> fl (of_int n) = Finite (of_int n)"
proof -
  assume "\<bar>of_int n :: rat\<bar> \<le> 2 ^ 53"
  then have "(of_int \<bar>n\<bar> :: rat) \<le> of_int (2 ^ 53)"
    by simp
  then have "\<bar>n\<bar> \<le> 2 ^ 53"
    by (simp only: of_int_le_iff)
  then show ?thesis
    by (rule fl_of_int)
qed

lemma foldl_js_add_exact:
  assumes "list_all is_integer xs"
    and "\<bar>of_int a\<bar> + sum_list (map (\<lambda>x. \<bar>rat_of x\<bar>) xs) \<le> 2 ^ 53"
  shows "\<exists>n::int. of_int n = of_int a + sum_list (map rat_of xs) \<and>
           foldl js_add (Finite (of_int a)) xs = Finite (of_int n)"
  using assms
proof (induction xs arbitrary: a)
  case Nil
  then show ?case by auto
next
  case (Cons x xs)
  from Cons.prems(1) obtain n :: int where x: "x = Finite (of_int n)"
    by (auto simp: is_integer_iff)
  have nonneg: "0 \<le> sum_list (map (\<lambda>x. \<bar>rat_of x\<bar>) xs)"
    by (rule sum_list_nonneg) auto
  have tri: "\<bar>of_int (a + n) :: rat\<bar> \<le> \<bar>of_int a\<bar> + \<bar>of_int n\<bar>"
    by simp
  with Cons.prems(2) nonneg have "\<bar>of_int (a + n) :: rat\<bar> \<le> 2 ^ 53"
    by (simp add: x)
  then have step: "fl (of_int a + of_int n) = Finite (of_int a + of_int n)"
    using fl_of_int_rat[of "a + n"] by simp
  from Cons.prems(2) tri
  have "\<bar>of_int (a + n)\<bar> + sum_list (map (\<lambda>x. \<bar>rat_of x\<bar>) xs) \<le> 2 ^ 53"
    by (simp add: x)
  from Cons.IH[OF _ this] Cons.prems(1) obtain m :: int where
    "of_int m = of_int (a + n) + sum_list (map rat_of xs)"
    "foldl js_add (Finite (of_int (a + n))) xs = Finite (of_int m)"
    by auto
  then show ?case
    by (intro exI[of _ m]) (simp add: step x)
qed

lemma sum_list_filter_le:
  "(\<And>x. 0 \<le> g x) \<Longrightarrow> sum_list (map g (filter P xs)) \<le> (sum_list (map g xs) :: rat)"
proof (induction xs)
  case Nil
  then show ?case by simp
next
  case (Cons x xs)
  from Cons.IH[OF Cons.prems] Cons.prems[of x] show ?case
    by simp
qed

lemma sum_list_two_filters_le:
  "(\<And>x. 0 \<le> g x) \<Longrightarrow> (\<And>x. \<not> (P x \<and> Q x)) \<Longrightarrow>
   sum_list (map g (filter P xs)) + sum_list (map g (filter Q xs)) \<le> (sum_list (map g xs) :: rat)"
proof (induction xs)
  case Nil
  then show ?case by simp
next
  case (Cons x xs)
  from Cons.IH[OF Cons.prems] Cons.prems(1)[of x] Cons.prems(2)[of x] show ?case
    by auto
qed

lemma sum_list_abs_le: "\<bar>sum_list (map f xs)\<bar> \<le> (sum_list (map (\<lambda>x. \<bar>f x\<bar>) xs) :: rat)"
  by (induction xs) (simp_all add: abs_triangle_ineq[THEN order_trans])

lemma sum_of_exact:
  assumes "safe_integers (map f l)"
  shows "\<exists>n::int. of_int n = exact_sum f d l \<and> sum_of f d l = Finite (of_int n)"
proof -
  let ?P = "\<lambda>tx. transaction_type tx = Some d"
  let ?xs = "map f (filter ?P l)"
  from assms have ints: "list_all is_integer ?xs"
    by (simp add: safe_integers_def list_all_iff)
  have "sum_list (map (\<lambda>x. \<bar>rat_of x\<bar>) ?xs) = sum_list (map (\<lambda>tx. \<bar>rat_of (f tx)\<bar>) (filter ?P l))"
    by (simp add: comp_def)
  also have "\<dots> \<le> sum_list (map (\<lambda>tx. \<bar>rat_of (f tx)\<bar>) l)"
    by (rule sum_list_filter_le) simp
  also have "\<dots> \<le> 2 ^ 53"
    using assms by (simp add: safe_integers_def comp_def)
  finally have "\<bar>of_int 0 :: rat\<bar> + sum_list (map (\<lambda>x. \<bar>rat_of x\<bar>) ?xs) \<le> 2 ^ 53"
    by simp
  from foldl_js_add_exact[OF ints this] show ?thesis
    by (simp add: sum_of_def js_sum_def exact_sum_def comp_def)
qed

lemma profit_exact:
  assumes "safe_integers (map price l)"
  shows "js_sub (sum_of price ''sale'' l) (sum_of price ''purchase'' l) =
           Finite (exact_sum price ''sale'' l - exact_sum price ''purchase'' l)"
proof -
  from sum_of_exact[OF assms, of "''sale''"] obtain r :: int where
    r: "of_int r = exact_sum price ''sale'' l" "sum_of price ''sale'' l = Finite (of_int r)"
    by blast
  from sum_of_exact[OF assms, of "''purchase''"] obtain e :: int where
    e: "of_int e = exact_sum price ''purchase'' l" "sum_of price ''purchase'' l = Finite (of_int e)"
    by blast
  let ?g = "\<lambda>tx. \<bar>rat_of (price tx)\<bar>"
  have "\<bar>exact_sum price ''sale'' l\<bar> + \<bar>exact_sum price ''purchase'' l\<bar>
          \<le> sum_list (map ?g (filter (\<lambda>tx. transaction_type tx = Some ''sale'') l)) +
            sum_list (map ?g (filter (\<lambda>tx. transaction_type tx = Some ''purchase'') l))"
    unfolding exact_sum_def by (intro add_mono sum_list_abs_le)
  also have "\<dots> \<le> sum_list (map ?g l)"
    by (rule sum_list_two_filters_le) auto
  also have "\<dots> \<le> 2 ^ 53"
    using assms by (simp add: safe_integers_def comp_def)
  finally have "\<bar>of_int r :: rat\<bar> + \<bar>of_int e\<bar> \<le> 2 ^ 53"
    by (simp only: r(1) e(1))
  moreover have "\<bar>of_int (r - e) :: rat\<bar> \<le> \<bar>of_int r\<bar> + \<bar>of_int e\<bar>"
    by simp
  ultimately have "\<bar>of_int (r - e) :: rat\<bar> \<le> 2 ^ 53"
    by linarith
  from fl_of_int_rat[OF this] have "fl (of_int r - of_int e) = Finite (of_int r - of_int e)"
    by simp
  then show ?thesis
    by (simp add: r(2) e(2) flip: r(1) e(1))
qed


section \<open>The reports on concrete tables\<close>

lemmas sample_defs = sample_user_A_def sample_user_B_def sample_user_Unknown_def
  sample_riven_Rubico_def sample_riven_NULL_def sample_riven_Lex_def

lemma sample_user_report:
  "getUserStatistics sample_txs = Some [sample_user_B, sample_user_A, sample_user_Unknown]"
  by (simp add: eval_defs sample_defs sample_txs_def)

lemma sample_riven_report:
  "getRivenStatistics sample_txs = Some [sample_riven_Rubico, sample_riven_NULL, sample_riven_Lex]"
  by (simp add: eval_defs sample_defs sample_txs_def)

lemma nan_user_report:
  "getUserStatistics nan_txs = Some
     [\<lparr>profit = Finite 5, revenue = Finite 5, expense = Finite 0, number_of_trades = 1,
        purchases = Finite 0, sales = Finite 1, profit_margin = Finite 1, user = ''P''\<rparr>,
      \<lparr>profit = NaN, revenue = NaN, expense = Finite 0, number_of_trades = 1,
        purchases = Finite 0, sales = Finite 1, profit_margin = NaN, user = ''Q''\<rparr>,
      \<lparr>profit = Finite 9, revenue = Finite 9, expense = Finite 0, number_of_trades = 1,
        purchases = Finite 0, sales = Finite 1, profit_margin = Finite 1, user = ''R''\<rparr>]"
  by (simp add: eval_defs nan_txs_def)

lemma big_user_report:
  "getUserStatistics big_txs = Some
     [\<lparr>profit = Finite 9007199254740992, revenue = Finite 9007199254740992, expense = Finite 0,
        number_of_trades = 2, purchases = Finite 0, sales = Finite 2, profit_margin = Finite 1,
        user = ''X''\<rparr>,
      \<lparr>profit = NaN, revenue = NaN, expense = Finite 0, number_of_trades = 1,
        purchases = Finite 0, sales = Finite 1, profit_margin = NaN, user = ''Y''\<rparr>]"
  by (simp add: eval_defs big_txs_def fl_2_53_plus_1)

section \<open>The properties of the reports\<close>

text \<open>
  C1. On the three records of the example (actor A sells for 100, actor A buys for 40,
  actor B sells two units for 50; the other columns are arbitrary) the user report
  returns exactly two groups, A before B: A with revenue 100, expense 40, profit 60,
  margin 0.6, two trades, one unit bought and one sold; B with revenue 50, expense 0,
  profit 50, margin 1, one trade, nothing bought and two units sold. The margin 0.6 is
  the double that the literal \<^verbatim>\<open>0.6\<close> denotes, the rounding of \<open>6 / 10\<close>.
\<close>

theorem example_scenario:
  "getUserStatistics
     [\<lparr>tx_id = i1, ingame_name = Some ''A'', item_type = t1, item_name = n1,
        transaction_type = Some ''sale'', price = Finite 100, quantity = Finite 1,
        created_at = c1\<rparr>,
      \<lparr>tx_id = i2, ingame_name = Some ''A'', item_type = t2, item_name = n2,
        transaction_type = Some ''purchase'', price = Finite 40, quantity = Finite 1,
        created_at = c2\<rparr>,
      \<lparr>tx_id = i3, ingame_name = Some ''B'', item_type = t3, item_name = n3,
        transaction_type = Some ''sale'', price = Finite 50, quantity = Finite 2,
        created_at = c3\<rparr>]
   = Some
     [\<lparr>profit = Finite 60, revenue = Finite 100, expense = Finite 40, number_of_trades = 2,
        purchases = Finite 1, sales = Finite 1,
        profit_margin = Finite (5404319552844595 / 9007199254740992), user = ''A''\<rparr>,
      \<lparr>profit = Finite 50, revenue = Finite 50, expense = Finite 0, number_of_trades = 1,
        purchases = Finite 0, sales = Finite 2, profit_margin = Finite 1, user = ''B''\<rparr>] \<and>
   fl (6 / 10) = Finite (5404319552844595 / 9007199254740992)"
  using fl_six_tenths by (simp add: eval_defs)

text \<open>
  C2, as the program has it. In both reports, for every table, every group of the output
  has as profit the number \<^verbatim>\<open>revenue - expense\<close>, and \<^verbatim>\<open>profit === revenue - expense\<close>
  holds whenever the profit is not \<^verbatim>\<open>NaN\<close>. The revenue is the sum of the price over the
  sale records of the group and the expense the sum over its purchase records, added up
  in the order of the table with every addition rounded to a double. When the prices
  of the group are integers whose magnitudes add up to at most \<open>2^53\<close>, revenue,
  expense and profit are the exact sums and their exact difference. Both reports return
  a result for every table.
\<close>

theorem profit_conservation:
  "\<exists>us rs. getUserStatistics txs = Some us \<and> getRivenStatistics txs = Some rs \<and>
     (\<forall>g \<in> set us.
        profit g = js_sub (revenue g) (expense g) \<and>
        (profit g \<noteq> NaN \<longrightarrow> js_strict_eq (profit g) (js_sub (revenue g) (expense g))) \<and>
        revenue g = sum_of price ''sale'' (user_group txs (user g)) \<and>
        expense g = sum_of price ''purchase'' (user_group txs (user g)) \<and>
        (safe_integers (map price (user_group txs (user g))) \<longrightarrow>
           revenue g = Finite (exact_sum price ''sale'' (user_group txs (user g))) \<and>
           expense g = Finite (exact_sum price ''purchase'' (user_group txs (user g))) \<and>
           profit g = Finite (exact_sum price ''sale'' (user_group txs (user g)) -
                              exact_sum price ''purchase'' (user_group txs (user g))))) \<and>
     (\<forall>g \<in> set rs.
        profit g = js_sub (revenue g) (expense g) \<and>
        (profit g \<noteq> NaN \<longrightarrow> js_strict_eq (profit g) (js_sub (revenue g) (expense g))) \<and>
        revenue g = sum_of price ''sale'' (riven_group txs (riven g)) \<and>
        expense g = sum_of price ''purchase'' (riven_group txs (riven g)) \<and>
        (safe_integers (map price (riven_group txs (riven g))) \<longrightarrow>
           revenue g = Finite (exact_sum price ''sale'' (riven_group txs (riven g))) \<and>
           expense g = Finite (exact_sum price ''purchase'' (riven_group txs (riven g))) \<and>
           profit g = Finite (exact_sum price ''sale'' (riven_group txs (riven g)) -
                              exact_sum price ''purchase'' (riven_group txs (riven g)))))"
proof -
  obtain us rs where us: "getUserStatistics txs = Some us" and rs: "getRivenStatistics txs = Some rs"
    using getUserStatistics_Some getRivenStatistics_Some by blast
  have conserved:
    "p = js_sub r e \<and> (p \<noteq> NaN \<longrightarrow> js_strict_eq p (js_sub r e)) \<and>
     r = sum_of price ''sale'' l \<and> e = sum_of price ''purchase'' l \<and>
     (safe_integers (map price l) \<longrightarrow>
        r = Finite (exact_sum price ''sale'' l) \<and>
        e = Finite (exact_sum price ''purchase'' l) \<and>
        p = Finite (exact_sum price ''sale'' l - exact_sum price ''purchase'' l))"
    if "r = sum_of price ''sale'' l" "e = sum_of price ''purchase'' l" "p = js_sub r e"
    for p r e l
  proof (intro conjI impI)
    show "p = js_sub r e" "r = sum_of price ''sale'' l" "e = sum_of price ''purchase'' l"
      by (rule that)+
    show "js_strict_eq p (js_sub r e)" if "p \<noteq> NaN"
      using that \<open>p = js_sub r e\<close> by (simp add: js_strict_eq_def)
    assume safe: "safe_integers (map price l)"
    from sum_of_exact[OF safe, of "''sale''"] show "r = Finite (exact_sum price ''sale'' l)"
      by (auto simp: \<open>r = sum_of price ''sale'' l\<close>)
    from sum_of_exact[OF safe, of "''purchase''"]
    show "e = Finite (exact_sum price ''purchase'' l)"
      by (auto simp: \<open>e = sum_of price ''purchase'' l\<close>)
    from profit_exact[OF safe]
    show "p = Finite (exact_sum price ''sale'' l - exact_sum price ''purchase'' l)"
      by (simp only: that)
  qed
  have u: "\<forall>g \<in> set us.
        profit g = js_sub (revenue g) (expense g) \<and>
        (profit g \<noteq> NaN \<longrightarrow> js_strict_eq (profit g) (js_sub (revenue g) (expense g))) \<and>
        revenue g = sum_of price ''sale'' (user_group txs (user g)) \<and>
        expense g = sum_of price ''purchase'' (user_group txs (user g)) \<and>
        (safe_integers (map price (user_group txs (user g))) \<longrightarrow>
           revenue g = Finite (exact_sum price ''sale'' (user_group txs (user g))) \<and>
           expense g = Finite (exact_sum price ''purchase'' (user_group txs (user g))) \<and>
           profit g = Finite (exact_sum price ''sale'' (user_group txs (user g)) -
                              exact_sum price ''purchase'' (user_group txs (user g))))"
    by (intro ballI conserved user_report_fields(1,2,6)[OF us])
  have r: "\<forall>g \<in> set rs.
        profit g = js_sub (revenue g) (expense g) \<and>
        (profit g \<noteq> NaN \<longrightarrow> js_strict_eq (profit g) (js_sub (revenue g) (expense g))) \<and>
        revenue g = sum_of price ''sale'' (riven_group txs (riven g)) \<and>
        expense g = sum_of price ''purchase'' (riven_group txs (riven g)) \<and>
        (safe_integers (map price (riven_group txs (riven g))) \<longrightarrow>
           revenue g = Finite (exact_sum price ''sale'' (riven_group txs (riven g))) \<and>
           expense g = Finite (exact_sum price ''purchase'' (riven_group txs (riven g))) \<and>
           profit g = Finite (exact_sum price ''sale'' (riven_group txs (riven g)) -
                              exact_sum price ''purchase'' (riven_group txs (riven g))))"
    by (intro ballI conserved riven_report_fields(1,2,6)[OF rs])
  from us rs u r show ?thesis
    by (intro exI[of _ us] exI[of _ rs] conjI)
qed

text \<open>
  The sample table: the group of user A (prices 100 and 40), and the riven group Lex.
\<close>

theorem profit_conservation_witness:
  "getUserStatistics sample_txs = Some [sample_user_B, sample_user_A, sample_user_Unknown] \<and>
   sample_user_A \<in> set [sample_user_B, sample_user_A, sample_user_Unknown] \<and>
   profit sample_user_A \<noteq> NaN \<and>
   safe_integers (map price (user_group sample_txs ''A'')) \<and>
   js_strict_eq (profit sample_user_A) (js_sub (revenue sample_user_A) (expense sample_user_A)) \<and>
   revenue sample_user_A = sum_of price ''sale'' (user_group sample_txs ''A'') \<and>
   expense sample_user_A = sum_of price ''purchase'' (user_group sample_txs ''A'') \<and>
   revenue sample_user_A = Finite (exact_sum price ''sale'' (user_group sample_txs ''A'')) \<and>
   expense sample_user_A = Finite (exact_sum price ''purchase'' (user_group sample_txs ''A'')) \<and>
   profit sample_user_A = Finite (exact_sum price ''sale'' (user_group sample_txs ''A'') -
                                  exact_sum price ''purchase'' (user_group sample_txs ''A'')) \<and>
   getRivenStatistics sample_txs = Some [sample_riven_Rubico, sample_riven_NULL, sample_riven_Lex] \<and>
   sample_riven_Lex \<in> set [sample_riven_Rubico, sample_riven_NULL, sample_riven_Lex] \<and>
   profit sample_riven_Lex \<noteq> NaN \<and>
   safe_integers (map price (riven_group sample_txs (Some ''Lex''))) \<and>
   js_strict_eq (profit sample_riven_Lex)
     (js_sub (revenue sample_riven_Lex) (expense sample_riven_Lex)) \<and>
   revenue sample_riven_Lex = Finite (exact_sum price ''sale'' (riven_group sample_txs (Some ''Lex''))) \<and>
   expense sample_riven_Lex =
     Finite (exact_sum price ''purchase'' (riven_group sample_txs (Some ''Lex''))) \<and>
   profit sample_riven_Lex =
     Finite (exact_sum price ''sale'' (riven_group sample_txs (Some ''Lex'')) -
             exact_sum price ''purchase'' (riven_group sample_txs (Some ''Lex'')))"
proof -
  from profit_conservation[of sample_txs] obtain us rs where
    us: "getUserStatistics sample_txs = Some us" and rs: "getRivenStatistics sample_txs = Some rs" and
    u: "\<forall>g \<in> set us.
        profit g = js_sub (revenue g) (expense g) \<and>
        (profit g \<noteq> NaN \<longrightarrow> js_strict_eq (profit g) (js_sub (revenue g) (expense g))) \<and>
        revenue g = sum_of price ''sale'' (user_group sample_txs (user g)) \<and>
        expense g = sum_of price ''purchase'' (user_group sample_txs (user g)) \<and>
        (safe_integers (map price (user_group sample_txs (user g))) \<longrightarrow>
           revenue g = Finite (exact_sum price ''sale'' (user_group sample_txs (user g))) \<and>
           expense g = Finite (exact_sum price ''purchase'' (user_group sample_txs (user g))) \<and>
           profit g = Finite (exact_sum price ''sale'' (user_group sample_txs (user g)) -
                              exact_sum price ''purchase'' (user_group sample_txs (user g))))" and
    r: "\<forall>g \<in> set rs.
        profit g = js_sub (revenue g) (expense g) \<and>
        (profit g \<noteq> NaN \<longrightarrow> js_strict_eq (profit g) (js_sub (revenue g) (expense g))) \<and>
        revenue g = sum_of price ''sale'' (riven_group sample_txs (riven g)) \<and>
        expense g = sum_of price ''purchase'' (riven_group sample_txs (riven g)) \<and>
        (safe_integers (map price (riven_group sample_txs (riven g))) \<longrightarrow>
           revenue g = Finite (exact_sum price ''sale'' (riven_group sample_txs (riven g))) \<and>
           expense g = Finite (exact_sum price ''purchase'' (riven_group sample_txs (riven g))) \<and>
           profit g = Finite (exact_sum price ''sale'' (riven_group sample_txs (riven g)) -
                              exact_sum price ''purchase'' (riven_group sample_txs (riven g))))"
    by blast
  from us rs have eq: "us = [sample_user_B, sample_user_A, sample_user_Unknown]"
    "rs = [sample_riven_Rubico, sample_riven_NULL, sample_riven_Lex]"
    by (simp_all add: sample_user_report sample_riven_report)
  have m: "sample_user_A \<in> set us" "sample_riven_Lex \<in> set rs"
    unfolding eq by simp_all
  have k: "user sample_user_A = ''A''" "riven sample_riven_Lex = Some ''Lex''"
    "profit sample_user_A \<noteq> NaN" "profit sample_riven_Lex \<noteq> NaN"
    by (simp_all add: sample_defs)
  have safe: "safe_integers (map price (user_group sample_txs ''A''))"
    "safe_integers (map price (riven_group sample_txs (Some ''Lex'')))"
    by (simp_all add: safe_integers_def user_group_def riven_group_def user_key_def
          sample_txs_def row_def)
  note a = bspec[OF u m(1), unfolded k(1)] and b = bspec[OF r m(2), unfolded k(2)]
  from a k(3) safe(1)
  have a1: "js_strict_eq (profit sample_user_A)
              (js_sub (revenue sample_user_A) (expense sample_user_A))"
    and a2: "revenue sample_user_A = sum_of price ''sale'' (user_group sample_txs ''A'')"
    and a3: "expense sample_user_A = sum_of price ''purchase'' (user_group sample_txs ''A'')"
    and a4: "revenue sample_user_A = Finite (exact_sum price ''sale'' (user_group sample_txs ''A''))"
    and a5: "expense sample_user_A =
               Finite (exact_sum price ''purchase'' (user_group sample_txs ''A''))"
    and a6: "profit sample_user_A =
               Finite (exact_sum price ''sale'' (user_group sample_txs ''A'') -
                       exact_sum price ''purchase'' (user_group sample_txs ''A''))"
    by blast+
  from b k(4) safe(2)
  have b1: "js_strict_eq (profit sample_riven_Lex)
              (js_sub (revenue sample_riven_Lex) (expense sample_riven_Lex))"
    and b4: "revenue sample_riven_Lex =
               Finite (exact_sum price ''sale'' (riven_group sample_txs (Some ''Lex'')))"
    and b5: "expense sample_riven_Lex =
               Finite (exact_sum price ''purchase'' (riven_group sample_txs (Some ''Lex'')))"
    and b6: "profit sample_riven_Lex =
               Finite (exact_sum price ''sale'' (riven_group sample_txs (Some ''Lex'')) -
                       exact_sum price ''purchase'' (riven_group sample_txs (Some ''Lex'')))"
    by blast+
  show ?thesis
    by (intro conjI sample_user_report sample_riven_report k(3,4) safe a1 a2 a3 a4 a5 a6
          b1 b4 b5 b6) simp_all
qed

text \<open>
  C2 read with exact sums, and with \<^verbatim>\<open>===\<close> on every group, fails on a table with two
  sales of user X at the prices \<open>2^53\<close> and 1 and a sale of user Y whose price is \<^verbatim>\<open>NaN\<close>:
  the revenue of X is \<open>2^53\<close>, not the sum \<open>2^53 + 1\<close> of the prices, and for Y
  \<^verbatim>\<open>profit === revenue - expense\<close> is false.
\<close>

theorem profit_conservation_counterexample:
  "getUserStatistics big_txs = Some
     [\<lparr>profit = Finite 9007199254740992, revenue = Finite 9007199254740992, expense = Finite 0,
        number_of_trades = 2, purchases = Finite 0, sales = Finite 2, profit_margin = Finite 1,
        user = ''X''\<rparr>,
      \<lparr>profit = NaN, revenue = NaN, expense = Finite 0, number_of_trades = 1,
        purchases = Finite 0, sales = Finite 1, profit_margin = NaN, user = ''Y''\<rparr>] \<and>
   map price (user_group big_txs ''X'') = [Finite 9007199254740992, Finite 1] \<and>
   exact_sum price ''sale'' (user_group big_txs ''X'') = 9007199254740993 \<and>
   map price (user_group big_txs ''Y'') = [NaN] \<and>
   \<not> js_strict_eq NaN (js_sub NaN (Finite 0))"
  by (intro conjI big_user_report)
     (simp_all add: js_strict_eq_def exact_sum_def user_group_def user_key_def
        big_txs_def row_def)

text \<open>
  C3. In both reports, for every table and every group of the output: when
  \<^verbatim>\<open>revenue === 0\<close> the margin is the number 0, whatever the expense; otherwise the margin
  is \<^verbatim>\<open>profit / revenue\<close>, which for a finite profit and a finite revenue is the rounded
  quotient, with a divisor that is not zero.
\<close>

theorem margin_guard:
  "\<exists>us rs. getUserStatistics txs = Some us \<and> getRivenStatistics txs = Some rs \<and>
     (\<forall>g \<in> set us.
        (js_strict_eq (revenue g) (Finite 0) \<longrightarrow> profit_margin g = Finite 0) \<and>
        (\<not> js_strict_eq (revenue g) (Finite 0) \<longrightarrow>
           profit_margin g = js_div (profit g) (revenue g)) \<and>
        (\<forall>p r. profit g = Finite p \<and> revenue g = Finite r \<and> r \<noteq> 0 \<longrightarrow>
           profit_margin g = fl (p / r))) \<and>
     (\<forall>g \<in> set rs.
        (js_strict_eq (revenue g) (Finite 0) \<longrightarrow> profit_margin g = Finite 0) \<and>
        (\<not> js_strict_eq (revenue g) (Finite 0) \<longrightarrow>
           profit_margin g = js_div (profit g) (revenue g)) \<and>
        (\<forall>p r. profit g = Finite p \<and> revenue g = Finite r \<and> r \<noteq> 0 \<longrightarrow>
           profit_margin g = fl (p / r)))"
proof -
  obtain us rs where us: "getUserStatistics txs = Some us" and rs: "getRivenStatistics txs = Some rs"
    using getUserStatistics_Some getRivenStatistics_Some by blast
  have guarded:
    "(js_strict_eq r (Finite 0) \<longrightarrow> m = Finite 0) \<and>
     (\<not> js_strict_eq r (Finite 0) \<longrightarrow> m = js_div p r) \<and>
     (\<forall>p' r'. p = Finite p' \<and> r = Finite r' \<and> r' \<noteq> 0 \<longrightarrow> m = fl (p' / r'))"
    if "m = (if r = Finite 0 then Finite 0 else js_div p r)" for m p r
    using that by (auto simp: js_strict_eq_def)
  have u: "\<forall>g \<in> set us.
        (js_strict_eq (revenue g) (Finite 0) \<longrightarrow> profit_margin g = Finite 0) \<and>
        (\<not> js_strict_eq (revenue g) (Finite 0) \<longrightarrow>
           profit_margin g = js_div (profit g) (revenue g)) \<and>
        (\<forall>p r. profit g = Finite p \<and> revenue g = Finite r \<and> r \<noteq> 0 \<longrightarrow>
           profit_margin g = fl (p / r))"
    using guarded[OF user_report_fields(7)[OF us]] by (intro ballI)
  have r: "\<forall>g \<in> set rs.
        (js_strict_eq (revenue g) (Finite 0) \<longrightarrow> profit_margin g = Finite 0) \<and>
        (\<not> js_strict_eq (revenue g) (Finite 0) \<longrightarrow>
           profit_margin g = js_div (profit g) (revenue g)) \<and>
        (\<forall>p r. profit g = Finite p \<and> revenue g = Finite r \<and> r \<noteq> 0 \<longrightarrow>
           profit_margin g = fl (p / r))"
    using guarded[OF riven_report_fields(7)[OF rs]] by (intro ballI)
  from us rs u r show ?thesis
    by (intro exI[of _ us] exI[of _ rs] conjI)
qed

text \<open>
  The sample table: user A has revenue 100 and the margin \<^verbatim>\<open>60 / 100\<close>; the riven group
  Lex has revenue 0 and expense 30, and margin 0.
\<close>

theorem margin_guard_witness:
  "getUserStatistics sample_txs = Some [sample_user_B, sample_user_A, sample_user_Unknown] \<and>
   sample_user_A \<in> set [sample_user_B, sample_user_A, sample_user_Unknown] \<and>
   revenue sample_user_A = Finite 100 \<and> profit sample_user_A = Finite 60 \<and>
   \<not> js_strict_eq (revenue sample_user_A) (Finite 0) \<and>
   profit_margin sample_user_A = js_div (Finite 60) (Finite 100) \<and>
   profit_margin sample_user_A = fl (60 / 100) \<and>
   getRivenStatistics sample_txs = Some [sample_riven_Rubico, sample_riven_NULL, sample_riven_Lex] \<and>
   sample_riven_Lex \<in> set [sample_riven_Rubico, sample_riven_NULL, sample_riven_Lex] \<and>
   js_strict_eq (revenue sample_riven_Lex) (Finite 0) \<and> expense sample_riven_Lex = Finite 30 \<and>
   profit_margin sample_riven_Lex = Finite 0"
proof -
  from margin_guard[of sample_txs] obtain us rs where
    us: "getUserStatistics sample_txs = Some us" and rs: "getRivenStatistics sample_txs = Some rs" and
    u: "\<forall>g \<in> set us.
        (js_strict_eq (revenue g) (Finite 0) \<longrightarrow> profit_margin g = Finite 0) \<and>
        (\<not> js_strict_eq (revenue g) (Finite 0) \<longrightarrow>
           profit_margin g = js_div (profit g) (revenue g)) \<and>
        (\<forall>p r. profit g = Finite p \<and> revenue g = Finite r \<and> r \<noteq> 0 \<longrightarrow>
           profit_margin g = fl (p / r))" and
    r: "\<forall>g \<in> set rs.
        (js_strict_eq (revenue g) (Finite 0) \<longrightarrow> profit_margin g = Finite 0) \<and>
        (\<not> js_strict_eq (revenue g) (Finite 0) \<longrightarrow>
           profit_margin g = js_div (profit g) (revenue g)) \<and>
        (\<forall>p r. profit g = Finite p \<and> revenue g = Finite r \<and> r \<noteq> 0 \<longrightarrow>
           profit_margin g = fl (p / r))"
    by blast
  from us rs have eq: "us = [sample_user_B, sample_user_A, sample_user_Unknown]"
    "rs = [sample_riven_Rubico, sample_riven_NULL, sample_riven_Lex]"
    by (simp_all add: sample_user_report sample_riven_report)
  have m: "sample_user_A \<in> set us" "sample_riven_Lex \<in> set rs"
    unfolding eq by simp_all
  have k: "revenue sample_user_A = Finite 100" "profit sample_user_A = Finite 60"
    "revenue sample_riven_Lex = Finite 0" "expense sample_riven_Lex = Finite 30"
    by (simp_all add: sample_defs)
  have z: "\<not> js_strict_eq (revenue sample_user_A) (Finite 0)"
    "js_strict_eq (revenue sample_riven_Lex) (Finite 0)"
    by (simp_all add: k js_strict_eq_def)
  from bspec[OF u m(1)] z(1)
  have a: "profit_margin sample_user_A = js_div (profit sample_user_A) (revenue sample_user_A)"
    by blast
  have nz: "(100::rat) \<noteq> 0"
    by simp
  from bspec[OF u m(1)] k(1,2) nz have a': "profit_margin sample_user_A = fl (60 / 100)"
    by blast
  from bspec[OF r m(2)] z(2) have b: "profit_margin sample_riven_Lex = Finite 0"
    by blast
  show ?thesis
    by (intro conjI sample_user_report sample_riven_report k z b a' a[unfolded k]) simp_all
qed

text \<open>
  C4, as the program has it. In both reports, when no group of the output has the profit
  \<^verbatim>\<open>NaN\<close>, the output is in descending order of profit: of two adjacent elements the
  first has a profit \<^verbatim>\<open>>=\<close> that of the second.
\<close>

theorem sort_order:
  "\<exists>us rs. getUserStatistics txs = Some us \<and> getRivenStatistics txs = Some rs \<and>
     ((\<forall>g \<in> set us. profit g \<noteq> NaN) \<longrightarrow>
        (\<forall>i. Suc i < length us \<longrightarrow> js_ge (profit (us ! i)) (profit (us ! Suc i)))) \<and>
     ((\<forall>g \<in> set rs. profit g \<noteq> NaN) \<longrightarrow>
        (\<forall>i. Suc i < length rs \<longrightarrow> js_ge (profit (rs ! i)) (profit (rs ! Suc i))))"
proof -
  obtain us rs where us: "getUserStatistics txs = Some us" and rs: "getRivenStatistics txs = Some rs"
    using getUserStatistics_Some getRivenStatistics_Some by blast
  have "js_ge (profit (us ! i)) (profit (us ! Suc i))"
    if "\<forall>g \<in> set us. profit g \<noteq> NaN" "Suc i < length us" for i
    using sorted_wrt_nth_less[OF user_report_sorted[OF us that(1)], of i "Suc i"] that(2)
    by simp
  then have u: "(\<forall>g \<in> set us. profit g \<noteq> NaN) \<longrightarrow>
        (\<forall>i. Suc i < length us \<longrightarrow> js_ge (profit (us ! i)) (profit (us ! Suc i)))"
    by blast
  have "js_ge (profit (rs ! i)) (profit (rs ! Suc i))"
    if "\<forall>g \<in> set rs. profit g \<noteq> NaN" "Suc i < length rs" for i
    using sorted_wrt_nth_less[OF riven_report_sorted[OF rs that(1)], of i "Suc i"] that(2)
    by simp
  then have r: "(\<forall>g \<in> set rs. profit g \<noteq> NaN) \<longrightarrow>
        (\<forall>i. Suc i < length rs \<longrightarrow> js_ge (profit (rs ! i)) (profit (rs ! Suc i)))"
    by blast
  from us rs u r show ?thesis
    by (intro exI[of _ us] exI[of _ rs] conjI)
qed

text \<open>
  The sample table: no profit is \<^verbatim>\<open>NaN\<close>; the first two users, and the last two riven
  groups.
\<close>

theorem sort_order_witness:
  "getUserStatistics sample_txs = Some [sample_user_B, sample_user_A, sample_user_Unknown] \<and>
   profit sample_user_B \<noteq> NaN \<and> profit sample_user_A \<noteq> NaN \<and>
   profit sample_user_Unknown \<noteq> NaN \<and>
   Suc 0 < length [sample_user_B, sample_user_A, sample_user_Unknown] \<and>
   js_ge (profit sample_user_B) (profit sample_user_A) \<and>
   getRivenStatistics sample_txs = Some [sample_riven_Rubico, sample_riven_NULL, sample_riven_Lex] \<and>
   profit sample_riven_Rubico \<noteq> NaN \<and> profit sample_riven_NULL \<noteq> NaN \<and>
   profit sample_riven_Lex \<noteq> NaN \<and>
   Suc 1 < length [sample_riven_Rubico, sample_riven_NULL, sample_riven_Lex] \<and>
   js_ge (profit sample_riven_NULL) (profit sample_riven_Lex)"
proof -
  from sort_order[of sample_txs] obtain us rs where
    us: "getUserStatistics sample_txs = Some us" and rs: "getRivenStatistics sample_txs = Some rs" and
    u: "(\<forall>g \<in> set us. profit g \<noteq> NaN) \<longrightarrow>
        (\<forall>i. Suc i < length us \<longrightarrow> js_ge (profit (us ! i)) (profit (us ! Suc i)))" and
    r: "(\<forall>g \<in> set rs. profit g \<noteq> NaN) \<longrightarrow>
        (\<forall>i. Suc i < length rs \<longrightarrow> js_ge (profit (rs ! i)) (profit (rs ! Suc i)))"
    by blast
  from us rs have eq: "us = [sample_user_B, sample_user_A, sample_user_Unknown]"
    "rs = [sample_riven_Rubico, sample_riven_NULL, sample_riven_Lex]"
    by (simp_all add: sample_user_report sample_riven_report)
  have k: "profit sample_user_B \<noteq> NaN" "profit sample_user_A \<noteq> NaN"
    "profit sample_user_Unknown \<noteq> NaN" "profit sample_riven_Rubico \<noteq> NaN"
    "profit sample_riven_NULL \<noteq> NaN" "profit sample_riven_Lex \<noteq> NaN"
    by (simp_all add: sample_defs)
  then have nn: "\<forall>g \<in> set us. profit g \<noteq> NaN" "\<forall>g \<in> set rs. profit g \<noteq> NaN"
    unfolding eq by simp_all
  from u[THEN mp, OF nn(1), rule_format, of 0]
  have a: "js_ge (profit sample_user_B) (profit sample_user_A)"
    unfolding eq by simp
  from r[THEN mp, OF nn(2), rule_format, of 1]
  have b: "js_ge (profit sample_riven_NULL) (profit sample_riven_Lex)"
    unfolding eq by simp
  show ?thesis
    by (intro conjI sample_user_report sample_riven_report k a b) simp_all
qed

text \<open>
  C4 read for every table fails on a table of three users with one sale each, at the
  prices 5, \<^verbatim>\<open>NaN\<close> and 9: the comparator's value \<^verbatim>\<open>NaN\<close> counts as 0, the sort moves
  nothing, and the profits of the output are 5, \<^verbatim>\<open>NaN\<close>, 9.
\<close>

theorem sort_order_counterexample:
  "getUserStatistics nan_txs = Some
     [\<lparr>profit = Finite 5, revenue = Finite 5, expense = Finite 0, number_of_trades = 1,
        purchases = Finite 0, sales = Finite 1, profit_margin = Finite 1, user = ''P''\<rparr>,
      \<lparr>profit = NaN, revenue = NaN, expense = Finite 0, number_of_trades = 1,
        purchases = Finite 0, sales = Finite 1, profit_margin = NaN, user = ''Q''\<rparr>,
      \<lparr>profit = Finite 9, revenue = Finite 9, expense = Finite 0, number_of_trades = 1,
        purchases = Finite 0, sales = Finite 1, profit_margin = Finite 1, user = ''R''\<rparr>] \<and>
   \<not> js_ge (Finite 5) NaN \<and> \<not> js_ge NaN (Finite 9) \<and> \<not> js_ge (Finite 5) (Finite 9)"
  by (intro conjI nan_user_report) (simp_all add: js_ge_def)

text \<open>
  C5. In both reports the \<open>number_of_trades\<close> of the groups add up to the number of
  records that pass the report's filter: all records for the user report, the records
  of type \<^verbatim>\<open>'riven'\<close> for the riven report. Every such record belongs to exactly one
  group of the output, the one that carries its key.
\<close>

theorem partition_completeness:
  "\<exists>us rs. getUserStatistics txs = Some us \<and> getRivenStatistics txs = Some rs \<and>
     sum_list (map number_of_trades us) = length txs \<and>
     sum_list (map number_of_trades rs) =
       length (filter (\<lambda>tx. item_type tx = Some ''riven'') txs) \<and>
     (\<forall>tx \<in> set txs. \<exists>!g. g \<in> set us \<and> user g = user_key tx) \<and>
     (\<forall>tx \<in> set txs. item_type tx = Some ''riven'' \<longrightarrow>
        (\<exists>!g. g \<in> set rs \<and> riven g = item_name tx))"
proof -
  obtain us rs where us: "getUserStatistics txs = Some us" and rs: "getRivenStatistics txs = Some rs"
    using getUserStatistics_Some getRivenStatistics_Some by blast
  have "\<exists>!g. g \<in> set us \<and> user g = user_key tx" if "tx \<in> set txs" for tx
    using user_report_key[OF us that]
    by (intro unique_by_key[OF user_report_distinct[OF us]]) blast
  then have u: "\<forall>tx \<in> set txs. \<exists>!g. g \<in> set us \<and> user g = user_key tx"
    by (intro ballI)
  have "\<exists>!g. g \<in> set rs \<and> riven g = item_name tx"
    if "tx \<in> set txs" "item_type tx = Some ''riven''" for tx
    using riven_report_key[OF rs that]
    by (intro unique_by_key[OF riven_report_distinct[OF rs]]) blast
  then have r: "\<forall>tx \<in> set txs. item_type tx = Some ''riven'' \<longrightarrow>
        (\<exists>!g. g \<in> set rs \<and> riven g = item_name tx)"
    by (intro ballI impI)
  show ?thesis
    by (intro exI[of _ us] exI[of _ rs] conjI us rs u r
          user_report_trades[OF us] riven_report_trades[OF rs])
qed

text \<open>
  The sample table: six records, four of them rivens; the third record (no user name)
  and the fifth (a riven with no item name) with their groups.
\<close>

theorem partition_completeness_witness:
  "getUserStatistics sample_txs = Some [sample_user_B, sample_user_A, sample_user_Unknown] \<and>
   sum_list (map number_of_trades [sample_user_B, sample_user_A, sample_user_Unknown]) = 6 \<and>
   length sample_txs = 6 \<and>
   getRivenStatistics sample_txs = Some [sample_riven_Rubico, sample_riven_NULL, sample_riven_Lex] \<and>
   sum_list (map number_of_trades [sample_riven_Rubico, sample_riven_NULL, sample_riven_Lex]) = 4 \<and>
   length (filter (\<lambda>tx. item_type tx = Some ''riven'') sample_txs) = 4 \<and>
   sample_txs ! 2 \<in> set sample_txs \<and>
   sample_user_Unknown \<in> set [sample_user_B, sample_user_A, sample_user_Unknown] \<and>
   user sample_user_Unknown = user_key (sample_txs ! 2) \<and>
   sample_txs ! 4 \<in> set sample_txs \<and> item_type (sample_txs ! 4) = Some ''riven'' \<and>
   sample_riven_NULL \<in> set [sample_riven_Rubico, sample_riven_NULL, sample_riven_Lex] \<and>
   riven sample_riven_NULL = item_name (sample_txs ! 4)"
proof -
  from partition_completeness[of sample_txs] obtain us rs where
    us: "getUserStatistics sample_txs = Some us" and rs: "getRivenStatistics sample_txs = Some rs" and
    u: "sum_list (map number_of_trades us) = length sample_txs" and
    r: "sum_list (map number_of_trades rs) =
          length (filter (\<lambda>tx. item_type tx = Some ''riven'') sample_txs)"
    by blast
  from us rs have eq: "us = [sample_user_B, sample_user_A, sample_user_Unknown]"
    "rs = [sample_riven_Rubico, sample_riven_NULL, sample_riven_Lex]"
    by (simp_all add: sample_user_report sample_riven_report)
  have n: "length sample_txs = 6"
    "length (filter (\<lambda>tx. item_type tx = Some ''riven'') sample_txs) = 4"
    by (simp_all add: sample_txs_def row_def)
  have k: "user sample_user_Unknown = user_key (sample_txs ! 2)"
    "riven sample_riven_NULL = item_name (sample_txs ! 4)"
    "item_type (sample_txs ! 4) = Some ''riven''"
    "sample_txs ! 2 \<in> set sample_txs" "sample_txs ! 4 \<in> set sample_txs"
    by (simp_all add: sample_txs_def row_def sample_defs user_key_def)
  from u r show ?thesis
    unfolding eq n using k n by (simp add: sample_user_report sample_riven_report)
qed

text \<open>
  C6. Every group of the riven report comes from records of type \<^verbatim>\<open>'riven'\<close> only: its
  key is the item name of such a record, and each of its counters is the count or sum
  over the riven records with that item name. Records of another type change nothing,
  whatever their item name: the report of the table is the report of its riven records.
\<close>

theorem category_restriction:
  "\<exists>rs. getRivenStatistics txs = Some rs \<and>
     getRivenStatistics (filter (\<lambda>tx. item_type tx = Some ''riven'') txs) = Some rs \<and>
     (\<forall>g \<in> set rs.
        (\<exists>tx \<in> set txs. item_type tx = Some ''riven'' \<and> item_name tx = riven g) \<and>
        revenue g = sum_of price ''sale'' (riven_group txs (riven g)) \<and>
        expense g = sum_of price ''purchase'' (riven_group txs (riven g)) \<and>
        purchases g = sum_of quantity ''purchase'' (riven_group txs (riven g)) \<and>
        sales g = sum_of quantity ''sale'' (riven_group txs (riven g)) \<and>
        number_of_trades g = length (riven_group txs (riven g)))"
proof -
  obtain rs where rs: "getRivenStatistics txs = Some rs"
    using getRivenStatistics_Some by blast
  have same: "getRivenStatistics (filter (\<lambda>tx. item_type tx = Some ''riven'') txs) = Some rs"
    using rs by (simp add: getRivenStatistics_def)
  have "\<forall>g \<in> set rs.
        (\<exists>tx \<in> set txs. item_type tx = Some ''riven'' \<and> item_name tx = riven g) \<and>
        revenue g = sum_of price ''sale'' (riven_group txs (riven g)) \<and>
        expense g = sum_of price ''purchase'' (riven_group txs (riven g)) \<and>
        purchases g = sum_of quantity ''purchase'' (riven_group txs (riven g)) \<and>
        sales g = sum_of quantity ''sale'' (riven_group txs (riven g)) \<and>
        number_of_trades g = length (riven_group txs (riven g))"
    by (intro ballI conjI riven_report_group(2)[OF rs] riven_report_fields(1-5)[OF rs])
  with rs same show ?thesis
    by (intro exI[of _ rs] conjI)
qed

text \<open>
  The sample table: the first record is an \<^verbatim>\<open>'item'\<close> named Lex, the fourth a riven named
  Lex; the group Lex is computed from the fourth record alone.
\<close>

theorem category_restriction_witness:
  "getRivenStatistics sample_txs = Some [sample_riven_Rubico, sample_riven_NULL, sample_riven_Lex] \<and>
   sample_riven_Lex \<in> set [sample_riven_Rubico, sample_riven_NULL, sample_riven_Lex] \<and>
   riven_group sample_txs (Some ''Lex'') = [sample_txs ! 3] \<and>
   item_name (sample_txs ! 0) = Some ''Lex'' \<and> item_type (sample_txs ! 0) = Some ''item'' \<and>
   revenue sample_riven_Lex = sum_of price ''sale'' [sample_txs ! 3] \<and>
   expense sample_riven_Lex = sum_of price ''purchase'' [sample_txs ! 3] \<and>
   purchases sample_riven_Lex = sum_of quantity ''purchase'' [sample_txs ! 3] \<and>
   sales sample_riven_Lex = sum_of quantity ''sale'' [sample_txs ! 3] \<and>
   number_of_trades sample_riven_Lex = length [sample_txs ! 3]"
proof -
  from category_restriction[of sample_txs] obtain rs where
    rs: "getRivenStatistics sample_txs = Some rs" and
    r: "\<forall>g \<in> set rs.
        (\<exists>tx \<in> set sample_txs. item_type tx = Some ''riven'' \<and> item_name tx = riven g) \<and>
        revenue g = sum_of price ''sale'' (riven_group sample_txs (riven g)) \<and>
        expense g = sum_of price ''purchase'' (riven_group sample_txs (riven g)) \<and>
        purchases g = sum_of quantity ''purchase'' (riven_group sample_txs (riven g)) \<and>
        sales g = sum_of quantity ''sale'' (riven_group sample_txs (riven g)) \<and>
        number_of_trades g = length (riven_group sample_txs (riven g))"
    by blast
  from rs have eq: "rs = [sample_riven_Rubico, sample_riven_NULL, sample_riven_Lex]"
    by (simp add: sample_riven_report)
  have m: "sample_riven_Lex \<in> set rs"
    unfolding eq by simp
  have k: "riven sample_riven_Lex = Some ''Lex''"
    by (simp add: sample_defs)
  have grp: "riven_group sample_txs (Some ''Lex'') = [sample_txs ! 3]"
    "item_name (sample_txs ! 0) = Some ''Lex''" "item_type (sample_txs ! 0) = Some ''item''"
    by (simp_all add: riven_group_def sample_txs_def row_def)
  from bspec[OF r m] show ?thesis
    unfolding k grp using grp m by (simp add: sample_riven_report eq)
qed

text \<open>
  C7. In the user report a record whose user name is NULL or the empty string has the key
  \<^verbatim>\<open>'Unknown'\<close> and is a member of the one group with that key, whose statistics are
  those of all the records with no name, an empty name or the name \<^verbatim>\<open>'Unknown'\<close>. The
  output has at most one group with the key \<^verbatim>\<open>'Unknown'\<close>.
\<close>

theorem missing_actor_defaults:
  "\<exists>us. getUserStatistics txs = Some us \<and>
     length (filter (\<lambda>g. user g = ''Unknown'') us) \<le> 1 \<and>
     user_group txs ''Unknown'' =
       filter (\<lambda>t. ingame_name t = None \<or> ingame_name t = Some [] \<or>
                    ingame_name t = Some ''Unknown'') txs \<and>
     (\<forall>tx \<in> set txs. ingame_name tx = None \<or> ingame_name tx = Some [] \<longrightarrow>
        user_key tx = ''Unknown'' \<and>
        tx \<in> set (user_group txs ''Unknown'') \<and>
        (\<exists>g \<in> set us. user g = ''Unknown'' \<and>
           g = user_entry (''Unknown'', user_group txs ''Unknown'') \<and>
           number_of_trades g = length (user_group txs ''Unknown'')))"
proof -
  obtain us where us: "getUserStatistics txs = Some us"
    using getUserStatistics_Some by blast
  have one: "length (filter (\<lambda>g. user g = ''Unknown'') us) \<le> 1"
    by (rule filter_key_le_1[OF user_report_distinct[OF us]])
  have grp: "user_group txs ''Unknown'' =
       filter (\<lambda>t. ingame_name t = None \<or> ingame_name t = Some [] \<or>
                    ingame_name t = Some ''Unknown'') txs"
    by (simp add: user_group_def user_key_Unknown)
  have "user_key tx = ''Unknown'' \<and>
        tx \<in> set (user_group txs ''Unknown'') \<and>
        (\<exists>g \<in> set us. user g = ''Unknown'' \<and>
           g = user_entry (''Unknown'', user_group txs ''Unknown'') \<and>
           number_of_trades g = length (user_group txs ''Unknown''))"
    if tx: "tx \<in> set txs" and absent: "ingame_name tx = None \<or> ingame_name tx = Some []" for tx
  proof -
    from absent have key: "user_key tx = ''Unknown''"
      unfolding user_key_Unknown by blast
    from tx key have "tx \<in> set (user_group txs ''Unknown'')"
      by (simp add: user_group_def)
    moreover from user_report_key[OF us tx] obtain g where
      "g \<in> set us" "user g = ''Unknown''" "g = user_entry (''Unknown'', user_group txs ''Unknown'')"
      unfolding key by blast
    moreover from this(3) have "number_of_trades g = length (user_group txs ''Unknown'')"
      by (simp only: user_entry_fields(6))
    ultimately show ?thesis
      using key by blast
  qed
  then have "\<forall>tx \<in> set txs. ingame_name tx = None \<or> ingame_name tx = Some [] \<longrightarrow>
        user_key tx = ''Unknown'' \<and>
        tx \<in> set (user_group txs ''Unknown'') \<and>
        (\<exists>g \<in> set us. user g = ''Unknown'' \<and>
           g = user_entry (''Unknown'', user_group txs ''Unknown'') \<and>
           number_of_trades g = length (user_group txs ''Unknown''))"
    by (intro ballI impI)
  with us one grp show ?thesis
    by (intro exI[of _ us] conjI)
qed

text \<open>
  The sample table: the third record has no user name and the fourth an empty one; both
  are in the single group \<^verbatim>\<open>'Unknown'\<close>.
\<close>

theorem missing_actor_defaults_witness:
  "sample_txs ! 2 \<in> set sample_txs \<and> ingame_name (sample_txs ! 2) = None \<and>
   sample_txs ! 3 \<in> set sample_txs \<and> ingame_name (sample_txs ! 3) = Some [] \<and>
   getUserStatistics sample_txs = Some [sample_user_B, sample_user_A, sample_user_Unknown] \<and>
   user_key (sample_txs ! 2) = ''Unknown'' \<and> user_key (sample_txs ! 3) = ''Unknown'' \<and>
   user_group sample_txs ''Unknown'' = [sample_txs ! 2, sample_txs ! 3] \<and>
   sample_user_Unknown = user_entry (''Unknown'', [sample_txs ! 2, sample_txs ! 3]) \<and>
   length (filter (\<lambda>g. user g = ''Unknown'')
     [sample_user_B, sample_user_A, sample_user_Unknown]) = 1"
proof -
  from missing_actor_defaults[of sample_txs] obtain us where
    us: "getUserStatistics sample_txs = Some us" and
    u: "\<forall>tx \<in> set sample_txs. ingame_name tx = None \<or> ingame_name tx = Some [] \<longrightarrow>
        user_key tx = ''Unknown'' \<and>
        tx \<in> set (user_group sample_txs ''Unknown'') \<and>
        (\<exists>g \<in> set us. user g = ''Unknown'' \<and>
           g = user_entry (''Unknown'', user_group sample_txs ''Unknown'') \<and>
           number_of_trades g = length (user_group sample_txs ''Unknown''))"
    by blast
  from us have eq: "us = [sample_user_B, sample_user_A, sample_user_Unknown]"
    by (simp add: sample_user_report)
  have k: "sample_txs ! 2 \<in> set sample_txs" "ingame_name (sample_txs ! 2) = None"
    "sample_txs ! 3 \<in> set sample_txs" "ingame_name (sample_txs ! 3) = Some []"
    by (simp_all add: sample_txs_def row_def)
  have grp: "user_group sample_txs ''Unknown'' = [sample_txs ! 2, sample_txs ! 3]"
    by (simp add: user_group_def user_key_def sample_txs_def row_def)
  have usr: "user sample_user_B \<noteq> ''Unknown''" "user sample_user_A \<noteq> ''Unknown''"
    "user sample_user_Unknown = ''Unknown''"
    by (simp_all add: sample_defs)
  from bspec[OF u k(1)] k(2) have a: "user_key (sample_txs ! 2) = ''Unknown''"
    and g: "\<exists>g \<in> set us. user g = ''Unknown'' \<and>
           g = user_entry (''Unknown'', user_group sample_txs ''Unknown'')"
    by blast+
  from bspec[OF u k(3)] k(4) have b: "user_key (sample_txs ! 3) = ''Unknown''"
    by blast
  from g have c: "sample_user_Unknown = user_entry (''Unknown'', [sample_txs ! 2, sample_txs ! 3])"
    unfolding eq grp using usr by auto
  from a b c k grp usr show ?thesis
    by (simp add: sample_user_report)
qed

text \<open>
  C8. In both reports a record whose \<^verbatim>\<open>transaction_type\<close> is neither \<^verbatim>\<open>'sale'\<close> nor
  \<^verbatim>\<open>'purchase'\<close> adds nothing to the revenue, expense, purchases and sales of its group,
  which are the sums over the other records of the table, and adds one to the group's
  \<open>number_of_trades\<close>. The record may stand anywhere in the table; in the riven report
  it has a group when its type is \<^verbatim>\<open>'riven'\<close>.
\<close>

theorem other_direction:
  assumes "transaction_type tx \<noteq> Some ''sale''" and "transaction_type tx \<noteq> Some ''purchase''"
  shows "\<exists>us rs. getUserStatistics (xs @ tx # ys) = Some us \<and>
     getRivenStatistics (xs @ tx # ys) = Some rs \<and>
     (\<exists>g \<in> set us. user g = user_key tx \<and>
        revenue g = sum_of price ''sale'' (user_group (xs @ ys) (user_key tx)) \<and>
        expense g = sum_of price ''purchase'' (user_group (xs @ ys) (user_key tx)) \<and>
        purchases g = sum_of quantity ''purchase'' (user_group (xs @ ys) (user_key tx)) \<and>
        sales g = sum_of quantity ''sale'' (user_group (xs @ ys) (user_key tx)) \<and>
        number_of_trades g = Suc (length (user_group (xs @ ys) (user_key tx)))) \<and>
     (item_type tx = Some ''riven'' \<longrightarrow>
        (\<exists>g \<in> set rs. riven g = item_name tx \<and>
           revenue g = sum_of price ''sale'' (riven_group (xs @ ys) (item_name tx)) \<and>
           expense g = sum_of price ''purchase'' (riven_group (xs @ ys) (item_name tx)) \<and>
           purchases g = sum_of quantity ''purchase'' (riven_group (xs @ ys) (item_name tx)) \<and>
           sales g = sum_of quantity ''sale'' (riven_group (xs @ ys) (item_name tx)) \<and>
           number_of_trades g = Suc (length (riven_group (xs @ ys) (item_name tx)))))"
proof -
  let ?txs = "xs @ tx # ys"
  obtain us rs where us: "getUserStatistics ?txs = Some us" and rs: "getRivenStatistics ?txs = Some rs"
    using getUserStatistics_Some getRivenStatistics_Some by blast
  have tx: "tx \<in> set ?txs"
    by simp
  from user_report_key[OF us tx] obtain g where
    g: "g \<in> set us" "user g = user_key tx"
    by blast
  from assms user_report_fields(1-5)[OF us g(1)]
  have "revenue g = sum_of price ''sale'' (user_group (xs @ ys) (user_key tx))"
    and "expense g = sum_of price ''purchase'' (user_group (xs @ ys) (user_key tx))"
    and "purchases g = sum_of quantity ''purchase'' (user_group (xs @ ys) (user_key tx))"
    and "sales g = sum_of quantity ''sale'' (user_group (xs @ ys) (user_key tx))"
    and "number_of_trades g = Suc (length (user_group (xs @ ys) (user_key tx)))"
    unfolding g(2) by (simp_all add: user_group_insert)
  with g have u: "\<exists>g \<in> set us. user g = user_key tx \<and>
        revenue g = sum_of price ''sale'' (user_group (xs @ ys) (user_key tx)) \<and>
        expense g = sum_of price ''purchase'' (user_group (xs @ ys) (user_key tx)) \<and>
        purchases g = sum_of quantity ''purchase'' (user_group (xs @ ys) (user_key tx)) \<and>
        sales g = sum_of quantity ''sale'' (user_group (xs @ ys) (user_key tx)) \<and>
        number_of_trades g = Suc (length (user_group (xs @ ys) (user_key tx)))"
    by (intro bexI[of _ g] conjI)
  have r: "item_type tx = Some ''riven'' \<longrightarrow>
        (\<exists>g \<in> set rs. riven g = item_name tx \<and>
           revenue g = sum_of price ''sale'' (riven_group (xs @ ys) (item_name tx)) \<and>
           expense g = sum_of price ''purchase'' (riven_group (xs @ ys) (item_name tx)) \<and>
           purchases g = sum_of quantity ''purchase'' (riven_group (xs @ ys) (item_name tx)) \<and>
           sales g = sum_of quantity ''sale'' (riven_group (xs @ ys) (item_name tx)) \<and>
           number_of_trades g = Suc (length (riven_group (xs @ ys) (item_name tx))))"
  proof
    assume riven: "item_type tx = Some ''riven''"
    from riven_report_key[OF rs tx riven] obtain h where
      h: "h \<in> set rs" "riven h = item_name tx"
      by blast
    from assms riven riven_report_fields(1-5)[OF rs h(1)]
    have "revenue h = sum_of price ''sale'' (riven_group (xs @ ys) (item_name tx))"
      and "expense h = sum_of price ''purchase'' (riven_group (xs @ ys) (item_name tx))"
      and "purchases h = sum_of quantity ''purchase'' (riven_group (xs @ ys) (item_name tx))"
      and "sales h = sum_of quantity ''sale'' (riven_group (xs @ ys) (item_name tx))"
      and "number_of_trades h = Suc (length (riven_group (xs @ ys) (item_name tx)))"
      unfolding h(2) by (simp_all add: riven_group_insert)
    with h show "\<exists>g \<in> set rs. riven g = item_name tx \<and>
           revenue g = sum_of price ''sale'' (riven_group (xs @ ys) (item_name tx)) \<and>
           expense g = sum_of price ''purchase'' (riven_group (xs @ ys) (item_name tx)) \<and>
           purchases g = sum_of quantity ''purchase'' (riven_group (xs @ ys) (item_name tx)) \<and>
           sales g = sum_of quantity ''sale'' (riven_group (xs @ ys) (item_name tx)) \<and>
           number_of_trades g = Suc (length (riven_group (xs @ ys) (item_name tx)))"
      by (intro bexI[of _ h] conjI)
  qed
  from us rs u r show ?thesis
    by (intro exI[of _ us] exI[of _ rs] conjI)
qed

text \<open>
  The sample table: the fifth record has the direction \<^verbatim>\<open>'gift'\<close>; it belongs to user B
  and, being a riven with no item name, to the riven group of the key NULL.
\<close>

theorem other_direction_witness:
  "transaction_type (sample_txs ! 4) = Some ''gift'' \<and>
   item_type (sample_txs ! 4) = Some ''riven'' \<and>
   take 4 sample_txs @ sample_txs ! 4 # drop 5 sample_txs = sample_txs \<and>
   getUserStatistics sample_txs = Some [sample_user_B, sample_user_A, sample_user_Unknown] \<and>
   sample_user_B \<in> set [sample_user_B, sample_user_A, sample_user_Unknown] \<and>
   user sample_user_B = user_key (sample_txs ! 4) \<and>
   revenue sample_user_B =
     sum_of price ''sale'' (user_group (take 4 sample_txs @ drop 5 sample_txs) ''B'') \<and>
   expense sample_user_B =
     sum_of price ''purchase'' (user_group (take 4 sample_txs @ drop 5 sample_txs) ''B'') \<and>
   purchases sample_user_B =
     sum_of quantity ''purchase'' (user_group (take 4 sample_txs @ drop 5 sample_txs) ''B'') \<and>
   sales sample_user_B =
     sum_of quantity ''sale'' (user_group (take 4 sample_txs @ drop 5 sample_txs) ''B'') \<and>
   number_of_trades sample_user_B =
     Suc (length (user_group (take 4 sample_txs @ drop 5 sample_txs) ''B'')) \<and>
   getRivenStatistics sample_txs = Some [sample_riven_Rubico, sample_riven_NULL, sample_riven_Lex] \<and>
   sample_riven_NULL \<in> set [sample_riven_Rubico, sample_riven_NULL, sample_riven_Lex] \<and>
   riven sample_riven_NULL = item_name (sample_txs ! 4) \<and>
   revenue sample_riven_NULL =
     sum_of price ''sale'' (riven_group (take 4 sample_txs @ drop 5 sample_txs) None) \<and>
   expense sample_riven_NULL =
     sum_of price ''purchase'' (riven_group (take 4 sample_txs @ drop 5 sample_txs) None) \<and>
   purchases sample_riven_NULL =
     sum_of quantity ''purchase'' (riven_group (take 4 sample_txs @ drop 5 sample_txs) None) \<and>
   sales sample_riven_NULL =
     sum_of quantity ''sale'' (riven_group (take 4 sample_txs @ drop 5 sample_txs) None) \<and>
   number_of_trades sample_riven_NULL =
     Suc (length (riven_group (take 4 sample_txs @ drop 5 sample_txs) None))"
proof -
  let ?tx = "sample_txs ! 4" and ?xs = "take 4 sample_txs" and ?ys = "drop 5 sample_txs"
  have dir: "transaction_type ?tx = Some ''gift''" and ty: "item_type ?tx = Some ''riven''"
    and key: "user_key ?tx = ''B''" "item_name ?tx = None"
    and split: "?xs @ ?tx # ?ys = sample_txs"
    by (simp_all add: sample_txs_def row_def user_key_def)
  from dir have other: "transaction_type ?tx \<noteq> Some ''sale''"
    "transaction_type ?tx \<noteq> Some ''purchase''"
    by simp_all
  from other_direction[OF other, of ?xs ?ys] obtain us rs where
    us: "getUserStatistics sample_txs = Some us" and rs: "getRivenStatistics sample_txs = Some rs" and
    u: "\<exists>g \<in> set us. user g = ''B'' \<and>
        revenue g = sum_of price ''sale'' (user_group (?xs @ ?ys) ''B'') \<and>
        expense g = sum_of price ''purchase'' (user_group (?xs @ ?ys) ''B'') \<and>
        purchases g = sum_of quantity ''purchase'' (user_group (?xs @ ?ys) ''B'') \<and>
        sales g = sum_of quantity ''sale'' (user_group (?xs @ ?ys) ''B'') \<and>
        number_of_trades g = Suc (length (user_group (?xs @ ?ys) ''B''))" and
    r: "\<exists>g \<in> set rs. riven g = None \<and>
           revenue g = sum_of price ''sale'' (riven_group (?xs @ ?ys) None) \<and>
           expense g = sum_of price ''purchase'' (riven_group (?xs @ ?ys) None) \<and>
           purchases g = sum_of quantity ''purchase'' (riven_group (?xs @ ?ys) None) \<and>
           sales g = sum_of quantity ''sale'' (riven_group (?xs @ ?ys) None) \<and>
           number_of_trades g = Suc (length (riven_group (?xs @ ?ys) None))"
    unfolding split key using ty by blast
  from us rs have eq: "us = [sample_user_B, sample_user_A, sample_user_Unknown]"
    "rs = [sample_riven_Rubico, sample_riven_NULL, sample_riven_Lex]"
    by (simp_all add: sample_user_report sample_riven_report)
  have usr: "user sample_user_B = ''B''" "user sample_user_A \<noteq> ''B''"
    "user sample_user_Unknown \<noteq> ''B''"
    "riven sample_riven_Rubico \<noteq> None" "riven sample_riven_NULL = None"
    "riven sample_riven_Lex \<noteq> None"
    by (simp_all add: sample_defs)
  from u have a: "revenue sample_user_B = sum_of price ''sale'' (user_group (?xs @ ?ys) ''B'') \<and>
        expense sample_user_B = sum_of price ''purchase'' (user_group (?xs @ ?ys) ''B'') \<and>
        purchases sample_user_B = sum_of quantity ''purchase'' (user_group (?xs @ ?ys) ''B'') \<and>
        sales sample_user_B = sum_of quantity ''sale'' (user_group (?xs @ ?ys) ''B'') \<and>
        number_of_trades sample_user_B = Suc (length (user_group (?xs @ ?ys) ''B''))"
    unfolding eq using usr by auto
  from r have b: "revenue sample_riven_NULL = sum_of price ''sale'' (riven_group (?xs @ ?ys) None) \<and>
           expense sample_riven_NULL = sum_of price ''purchase'' (riven_group (?xs @ ?ys) None) \<and>
           purchases sample_riven_NULL =
             sum_of quantity ''purchase'' (riven_group (?xs @ ?ys) None) \<and>
           sales sample_riven_NULL = sum_of quantity ''sale'' (riven_group (?xs @ ?ys) None) \<and>
           number_of_trades sample_riven_NULL = Suc (length (riven_group (?xs @ ?ys) None))"
    unfolding eq using usr by auto
  show ?thesis
    by (intro conjI dir ty split sample_user_report sample_riven_report
          a[THEN conjunct1] a[THEN conjunct2, THEN conjunct1]
          a[THEN conjunct2, THEN conjunct2, THEN conjunct1]
          a[THEN conjunct2, THEN conjunct2, THEN conjunct2, THEN conjunct1]
          a[THEN conjunct2, THEN conjunct2, THEN conjunct2, THEN conjunct2]
          b[THEN conjunct1] b[THEN conjunct2, THEN conjunct1]
          b[THEN conjunct2, THEN conjunct2, THEN conjunct1]
          b[THEN conjunct2, THEN conjunct2, THEN conjunct2, THEN conjunct1]
          b[THEN conjunct2, THEN conjunct2, THEN conjunct2, THEN conjunct2])
       (simp_all add: usr key)
qed

text \<open>
  C9. Every key in the output of the user report is a non-empty string. Every key in the
  output of the riven report is the item name of a riven record of the table, as the
  record has it: the riven report substitutes no placeholder, so a NULL or empty item
  name is a key of its output.
\<close>

theorem group_keys:
  "\<exists>us rs. getUserStatistics txs = Some us \<and> getRivenStatistics txs = Some rs \<and>
     (\<forall>g \<in> set us. user g \<noteq> []) \<and>
     (\<forall>g \<in> set rs. \<exists>tx \<in> set txs. item_type tx = Some ''riven'' \<and> riven g = item_name tx)"
proof -
  obtain us rs where us: "getUserStatistics txs = Some us" and rs: "getRivenStatistics txs = Some rs"
    using getUserStatistics_Some getRivenStatistics_Some by blast
  have "user g \<noteq> []" if "g \<in> set us" for g
    using user_report_group(2)[OF us that] by (metis imageE user_key_nonempty)
  then have u: "\<forall>g \<in> set us. user g \<noteq> []"
    by (intro ballI)
  have "\<exists>tx \<in> set txs. item_type tx = Some ''riven'' \<and> riven g = item_name tx"
    if "g \<in> set rs" for g
    using riven_report_group(2)[OF rs that] by auto
  then have r: "\<forall>g \<in> set rs. \<exists>tx \<in> set txs. item_type tx = Some ''riven'' \<and> riven g = item_name tx"
    by (intro ballI)
  from us rs u r show ?thesis
    by (intro exI[of _ us] exI[of _ rs] conjI)
qed

text \<open>
  The sample table: the user group \<^verbatim>\<open>'Unknown'\<close>, and the riven group whose key is the
  NULL item name of the fifth record.
\<close>

theorem group_keys_witness:
  "getUserStatistics sample_txs = Some [sample_user_B, sample_user_A, sample_user_Unknown] \<and>
   sample_user_Unknown \<in> set [sample_user_B, sample_user_A, sample_user_Unknown] \<and>
   user sample_user_Unknown \<noteq> [] \<and>
   getRivenStatistics sample_txs = Some [sample_riven_Rubico, sample_riven_NULL, sample_riven_Lex] \<and>
   sample_riven_NULL \<in> set [sample_riven_Rubico, sample_riven_NULL, sample_riven_Lex] \<and>
   sample_txs ! 4 \<in> set sample_txs \<and> item_type (sample_txs ! 4) = Some ''riven'' \<and>
   riven sample_riven_NULL = item_name (sample_txs ! 4)"
proof -
  from group_keys[of sample_txs] obtain us where
    us: "getUserStatistics sample_txs = Some us" and
    u: "\<forall>g \<in> set us. user g \<noteq> []"
    by blast
  from us have eq: "us = [sample_user_B, sample_user_A, sample_user_Unknown]"
    by (simp add: sample_user_report)
  have m: "sample_user_Unknown \<in> set us"
    unfolding eq by simp
  have k: "sample_txs ! 4 \<in> set sample_txs" "item_type (sample_txs ! 4) = Some ''riven''"
    "riven sample_riven_NULL = item_name (sample_txs ! 4)"
    by (simp_all add: sample_txs_def row_def sample_defs)
  from bspec[OF u m] k show ?thesis
    by (simp add: sample_user_report sample_riven_report)
qed

text \<open>
  Two rivens, one with the empty string as item name and one with NULL: the riven report
  has a group for each, with the empty string and with NULL as key.
\<close>

theorem riven_key_counterexample:
  "getRivenStatistics
     [row 1 (Some ''A'') (Some ''riven'') (Some []) (Some ''sale'') (Finite 10) (Finite 1),
      row 2 (Some ''A'') (Some ''riven'') None (Some ''sale'') (Finite 5) (Finite 1)]
   = Some
     [\<lparr>profit = Finite 10, revenue = Finite 10, expense = Finite 0, number_of_trades = 1,
        purchases = Finite 0, sales = Finite 1,
        profit_margin = Finite 1, riven = Some []\<rparr>,
      \<lparr>profit = Finite 5, revenue = Finite 5, expense = Finite 0, number_of_trades = 1,
        purchases = Finite 0, sales = Finite 1,
        profit_margin = Finite 1, riven = None\<rparr>]"
  by (simp add: eval_defs)

text \<open>
  C10. In both reports every grouping key yields exactly one entry of the output: the
  keys of the output are pairwise distinct, they are exactly the keys of the records
  that pass the report's filter, and the output has as many entries as there are such
  keys.
\<close>

theorem distinct_keys:
  "\<exists>us rs. getUserStatistics txs = Some us \<and> getRivenStatistics txs = Some rs \<and>
     distinct (map user us) \<and> set (map user us) = user_key ` set txs \<and>
     length us = card (user_key ` set txs) \<and>
     distinct (map riven rs) \<and>
     set (map riven rs) = item_name ` set (filter (\<lambda>tx. item_type tx = Some ''riven'') txs) \<and>
     length rs = card (item_name ` set (filter (\<lambda>tx. item_type tx = Some ''riven'') txs))"
proof -
  obtain us rs where us: "getUserStatistics txs = Some us" and rs: "getRivenStatistics txs = Some rs"
    using getUserStatistics_Some getRivenStatistics_Some by blast
  have du: "distinct (map user us)" and dr: "distinct (map riven rs)"
    by (rule user_report_distinct[OF us], rule riven_report_distinct[OF rs])
  have su: "set (map user us) = user_key ` set txs"
  proof (intro set_eqI iffI)
    fix k assume "k \<in> set (map user us)"
    then obtain g where "g \<in> set us" "k = user g"
      by auto
    with user_report_group(2)[OF us] show "k \<in> user_key ` set txs"
      by simp
  next
    fix k assume "k \<in> user_key ` set txs"
    then obtain tx where tx: "tx \<in> set txs" "k = user_key tx"
      by auto
    from user_report_key[OF us tx(1)] obtain g where "g \<in> set us" "user g = user_key tx"
      by blast
    then have "user g \<in> user ` set us"
      by (intro imageI)
    with \<open>user g = user_key tx\<close> tx(2) show "k \<in> set (map user us)"
      by simp
  qed
  have sr: "set (map riven rs) =
      item_name ` set (filter (\<lambda>tx. item_type tx = Some ''riven'') txs)"
  proof (intro set_eqI iffI)
    fix k assume "k \<in> set (map riven rs)"
    then obtain g where g: "g \<in> set rs" "k = riven g"
      by auto
    from riven_report_group(2)[OF rs g(1)] obtain tx where
      "tx \<in> set txs" "item_type tx = Some ''riven''" "item_name tx = riven g"
      by blast
    then have "tx \<in> set (filter (\<lambda>tx. item_type tx = Some ''riven'') txs)" "item_name tx = k"
      by (simp_all add: g(2))
    then show "k \<in> item_name ` set (filter (\<lambda>tx. item_type tx = Some ''riven'') txs)"
      by (metis imageI)
  next
    fix k assume "k \<in> item_name ` set (filter (\<lambda>tx. item_type tx = Some ''riven'') txs)"
    then obtain tx where tx: "tx \<in> set txs" "item_type tx = Some ''riven''" "k = item_name tx"
      by auto
    from riven_report_key[OF rs tx(1,2)] obtain g where "g \<in> set rs" "riven g = item_name tx"
      by blast
    then have "riven g \<in> riven ` set rs"
      by (intro imageI)
    with \<open>riven g = item_name tx\<close> tx(3) show "k \<in> set (map riven rs)"
      by simp
  qed
  have lu: "length us = card (user_key ` set txs)"
    using distinct_card[OF du] su by simp
  have lr: "length rs = card (item_name ` set (filter (\<lambda>tx. item_type tx = Some ''riven'') txs))"
    using distinct_card[OF dr] sr by simp
  from us rs du su lu dr sr lr show ?thesis
    by (intro exI[of _ us] exI[of _ rs] conjI)
qed

text \<open>
  The sample table: the three user keys and the three riven keys, the NULL item name
  among them.
\<close>

theorem distinct_keys_witness:
  "getUserStatistics sample_txs = Some [sample_user_B, sample_user_A, sample_user_Unknown] \<and>
   map user [sample_user_B, sample_user_A, sample_user_Unknown] = [''B'', ''A'', ''Unknown''] \<and>
   user_key ` set sample_txs = {''A'', ''B'', ''Unknown''} \<and>
   getRivenStatistics sample_txs = Some [sample_riven_Rubico, sample_riven_NULL, sample_riven_Lex] \<and>
   map riven [sample_riven_Rubico, sample_riven_NULL, sample_riven_Lex] =
     [Some ''Rubico'', None, Some ''Lex''] \<and>
   item_name ` set (filter (\<lambda>tx. item_type tx = Some ''riven'') sample_txs) =
     {Some ''Rubico'', None, Some ''Lex''}"
proof -
  from distinct_keys[of sample_txs] obtain us rs where
    us: "getUserStatistics sample_txs = Some us" and rs: "getRivenStatistics sample_txs = Some rs" and
    su: "set (map user us) = user_key ` set sample_txs" and
    sr: "set (map riven rs) =
           item_name ` set (filter (\<lambda>tx. item_type tx = Some ''riven'') sample_txs)"
    by blast
  from us rs have eq: "us = [sample_user_B, sample_user_A, sample_user_Unknown]"
    "rs = [sample_riven_Rubico, sample_riven_NULL, sample_riven_Lex]"
    by (simp_all add: sample_user_report sample_riven_report)
  have k: "map user [sample_user_B, sample_user_A, sample_user_Unknown] = [''B'', ''A'', ''Unknown'']"
    "map riven [sample_riven_Rubico, sample_riven_NULL, sample_riven_Lex] =
       [Some ''Rubico'', None, Some ''Lex'']"
    by (simp_all add: sample_defs)
  have "user_key ` set sample_txs = set (map user us)"
    by (rule su[symmetric])
  also have "map user us = [''B'', ''A'', ''Unknown'']"
    by (simp only: eq k)
  also have "set [''B'', ''A'', ''Unknown''] = {''A'', ''B'', ''Unknown''}"
    by (simp add: insert_commute)
  finally have a: "user_key ` set sample_txs = {''A'', ''B'', ''Unknown''}" .
  have "item_name ` set (filter (\<lambda>tx. item_type tx = Some ''riven'') sample_txs) =
          set (map riven rs)"
    by (rule sr[symmetric])
  also have "map riven rs = [Some ''Rubico'', None, Some ''Lex'']"
    by (simp only: eq k)
  also have "set [Some ''Rubico'', None, Some ''Lex''] = {Some ''Rubico'', None, Some ''Lex''}"
    by simp
  finally have b: "item_name ` set (filter (\<lambda>tx. item_type tx = Some ''riven'') sample_txs) =
     {Some ''Rubico'', None, Some ''Lex''}" .
  show ?thesis
    by (intro conjI sample_user_report sample_riven_report k a b)
qed

end
